theory Spec2Isabelle
  imports Complex_Main "HOL-Library.Word" "HOL-Library.Log_Nat"
begin

section \<open>Data model\<close>

text \<open>
  The frame loop \<open>FirstApp::run\<close> of \<open>first_app.cpp\<close> is embedded as a state-passing
  function. The numbers the loop only hands on to a collaborator (aspect ratio, field of
  view, clip planes, positions) are carried as \<open>real\<close>. The one number the loop computes
  itself is the frame time: there the 64-bit tick counts of the clock, their wrapping
  difference and the conversion to \<open>float\<close> seconds are modelled as the code performs them.
\<close>

record vec3 =
  vec_x :: real
  vec_y :: real
  vec_z :: real

record TransformComponent =
  translation :: vec3
  scale :: vec3
  rotation :: vec3

record PointLightComponent =
  lightIntensity :: real

text \<open>
  \<open>LveGameObject\<close> as \<open>first_app.cpp\<close> uses it: \<open>getId()\<close>, \<open>transform\<close>, \<open>color\<close>,
  \<open>model\<close> (a shared mesh, named here by the file it was loaded from) and \<open>pointLight\<close>
  (set by \<open>makePointLight\<close>).
\<close>

record LveGameObject =
  getId :: nat
  transform :: TransformComponent
  color :: vec3
  model :: "string option"
  pointLight :: "PointLightComponent option"

definition vec3_splat :: "real \<Rightarrow> vec3" where
  "vec3_splat v = \<lparr>vec_x = v, vec_y = v, vec_z = v\<rparr>"

text \<open>
  Modelled from the spec: \<open>LveGameObject::createGameObject\<close> and \<open>makePointLight\<close>
  (\<open>lve_game_object.hpp\<close> is not among the sources). An entity gets an identifier assigned
  at creation and never reused; the counter is passed explicitly. The spec gives a fresh
  entity no field values: it starts here with zero translation and rotation, unit scale, no
  mesh and no light attribute, and \<open>makePointLight\<close> adds the light attribute with the given
  intensity. Every field a statement below reads was assigned by \<open>first_app.cpp\<close>.
\<close>

definition createGameObject :: "nat \<Rightarrow> LveGameObject \<times> nat" where
  "createGameObject currentId =
     (\<lparr>getId = currentId,
       transform = \<lparr>translation = vec3_splat 0, scale = vec3_splat 1, rotation = vec3_splat 0\<rparr>,
       color = vec3_splat 0,
       model = None,
       pointLight = None\<rparr>,
      Suc currentId)"

definition makePointLight :: "real \<Rightarrow> nat \<Rightarrow> LveGameObject \<times> nat" where
  "makePointLight intensity currentId =
     (case createGameObject currentId of
        (obj, nextId) \<Rightarrow>
          (obj\<lparr>color := vec3_splat 1,
               pointLight := Some \<lparr>lightIntensity = intensity\<rparr>\<rparr>, nextId))"

text \<open>
  Modelled from the spec: \<open>LveGameObject::Map\<close>, the Scene Registry
  (\<open>lve_game_object.hpp\<close> is not among the sources): "an ordered-by-insertion mapping from
  identifier to Entity". It is an association list in insertion order; \<open>emplace\<close> appends a
  new key and leaves the registry alone when the key is already present.
\<close>

type_synonym Map = "(nat \<times> LveGameObject) list"

definition emplace :: "nat \<Rightarrow> LveGameObject \<Rightarrow> Map \<Rightarrow> Map" where
  "emplace k obj m = (if k \<in> fst ` set m then m else m @ [(k, obj)])"

definition iterate_registry :: "Map \<Rightarrow> LveGameObject list" where
  "iterate_registry m = map snd m"

fun emplace_all :: "LveGameObject list \<Rightarrow> Map \<Rightarrow> Map" where
  "emplace_all [] m = m"
| "emplace_all (obj # objs) m = emplace_all objs (emplace (getId obj) obj m)"

text \<open>\<open>FirstApp::loadSolarLight\<close>, the same in both revisions of \<open>first_app.cpp\<close>.\<close>

definition loadSolarLight :: "Map \<times> nat \<Rightarrow> Map \<times> nat" where
  "loadSolarLight st =
     (case st of
        (objs, currentId) \<Rightarrow>
          (case makePointLight (3502 / 10) currentId of
             (orangeLight, nextId) \<Rightarrow>
               (let orangeLight = orangeLight\<lparr>color := \<lparr>vec_x = 1, vec_y = 1 / 2, vec_z = 0\<rparr>\<rparr>;
                    orangeLight = orangeLight\<lparr>transform := (transform orangeLight)
                      \<lparr>translation := \<lparr>vec_x = - 2, vec_y = - 30, vec_z = - 5\<rparr>\<rparr>\<rparr>;
                    orangeLight = orangeLight\<lparr>transform := (transform orangeLight)
                      \<lparr>scale := \<lparr>vec_x = 1, vec_y = 1, vec_z = 1\<rparr>\<rparr>\<rparr>
                in (emplace (getId orangeLight) orangeLight objs, nextId))))"

subsection \<open>Clock readings and frame time\<close>

text \<open>
  A reading of \<open>std::chrono::high_resolution_clock\<close> is a \<open>time_point\<close>: a signed 64-bit
  count of ticks, the tick being a nanosecond. Lines 124-125 subtract two readings, which
  is a subtraction of the two 64-bit counts (wrapping here), and convert the resulting
  duration to \<open>std::chrono::duration<float, seconds::period>\<close>: the count is converted to
  \<open>float\<close> and divided, in \<open>float\<close>, by the \<open>float\<close> value of the 1000000000 ticks of a
  second.
\<close>

type_synonym time_point = "64 word"

definition ticks_per_second :: int where
  "ticks_per_second = 1000000000"

text \<open>
  Rounding to the nearest, ties to even, as IEEE 754 arithmetic does by default:
  \<open>round_div p q\<close> is the integer nearest to \<open>p / q\<close> for \<open>q > 0\<close>.
\<close>

definition round_div :: "int \<Rightarrow> int \<Rightarrow> int" where
  "round_div p q =
     (let n = p div q; r = p mod q
      in if 2 * r < q then n else if q < 2 * r then n + 1 else if even n then n else n + 1)"

text \<open>
  The \<open>float\<close> nearest to an integer: its magnitude keeps 24 significant bits.
  The result is an integer again.
\<close>

definition float_of_int64 :: "int \<Rightarrow> int" where
  "float_of_int64 n =
     (let k = nat (bitlen \<bar>n\<bar> - 24) in sgn n * (round_div \<bar>n\<bar> (2 ^ k) * 2 ^ k))"

text \<open>
  The quotient of two \<open>float\<close> values that are integers, \<open>b > 0\<close>, rounded to \<open>float\<close>:
  \<open>float_exponent p q\<close> is the exponent \<open>e\<close> for which \<open>p / q / 2 ^ e\<close> lies in
  \<open>[2 ^ 23, 2 ^ 24)\<close>, and the quotient is rounded to a multiple of \<open>2 ^ e\<close>. For a 64-bit
  count and the ticks of a second the exponent stays between -53 and 11, far inside the
  range of normal \<open>float\<close> values, so neither overflow nor gradual underflow is modelled.
\<close>

definition float_exponent :: "int \<Rightarrow> int \<Rightarrow> int" where
  "float_exponent p q =
     (let e = bitlen p - bitlen q - 24
      in if p * 2 ^ nat (- e) < 2 ^ 24 * (q * 2 ^ nat e) then e else e + 1)"

definition float_div :: "int \<Rightarrow> int \<Rightarrow> real" where
  "float_div a b =
     (if a = 0 then 0
      else (let e = float_exponent \<bar>a\<bar> b;
                m = round_div (\<bar>a\<bar> * 2 ^ nat (- e)) (b * 2 ^ nat e)
            in of_int (sgn a * m) * 2 powi e))"

text \<open>\<open>std::chrono::duration<float, std::chrono::seconds::period>(d).count()\<close> for a duration
  of \<open>d\<close> ticks.\<close>

definition duration_seconds :: "int \<Rightarrow> real" where
  "duration_seconds d = float_div (float_of_int64 d) (float_of_int64 ticks_per_second)"

text \<open>The \<open>frameTime\<close> of lines 124-125 from the previous and the new reading.\<close>

definition frame_seconds :: "time_point \<Rightarrow> time_point \<Rightarrow> real" where
  "frame_seconds previous current = duration_seconds (sint (current - previous))"

definition in_int64_range :: "int \<Rightarrow> bool" where
  "in_int64_range k = (- (2 ^ 63) \<le> k \<and> k < 2 ^ 63)"

subsection \<open>Shared State Block and Frame Context\<close>

record PointLight =
  light_position :: vec3
  light_color :: vec3
  light_intensity :: real

text \<open>
  \<open>GlobalUbo\<close> with the fields \<open>run\<close> assigns (\<open>projection\<close>, \<open>view\<close>, \<open>inverseView\<close>) and,
  modelled from the spec, the "array of active light descriptors with a count".
  The matrix type \<open>'m\<close> is left open.
\<close>

record 'm GlobalUbo =
  projection :: 'm
  view :: 'm
  inverseView :: 'm
  pointLights :: "PointLight list"
  numLights :: nat

text \<open>\<open>FrameInfo\<close>, with the six members \<open>run\<close> initialises it with, in that order.\<close>

record 'cam FrameInfo =
  frameIndex :: nat
  frameTime :: real
  commandBuffer :: nat
  fi_camera :: 'cam
  globalDescriptorSet :: nat
  fi_gameObjects :: Map

subsection \<open>Collaborators\<close>

text \<open>
  The camera, the keyboard controller and the two constants of \<open>LveSwapChain\<close> and of the
  light array are declared outside \<open>first_app.cpp\<close>; they are parameters of the model.
  \<open>camera0\<close> is the default-constructed \<open>LveCamera camera{}\<close>, \<open>default_matrix\<close> what
  \<open>GlobalUbo ubo{}\<close> holds before \<open>run\<close> assigns the three matrices.
\<close>

record ('inp, 'cam, 'm) Collab =
  MAX_FRAMES_IN_FLIGHT :: nat
  MAX_LIGHTS :: nat
  moveInPlaneXZ :: "'inp \<Rightarrow> real \<Rightarrow> LveGameObject \<Rightarrow> LveGameObject"
  setViewYXZ :: "vec3 \<Rightarrow> vec3 \<Rightarrow> 'cam \<Rightarrow> 'cam"
  setPerspectiveProjection :: "real \<Rightarrow> real \<Rightarrow> real \<Rightarrow> real \<Rightarrow> 'cam \<Rightarrow> 'cam"
  getProjection :: "'cam \<Rightarrow> 'm"
  getView :: "'cam \<Rightarrow> 'm"
  getInverseView :: "'cam \<Rightarrow> 'm"
  camera0 :: 'cam
  default_matrix :: 'm

definition radians :: "real \<Rightarrow> real" where
  "radians degrees = degrees * pi / 180"

subsection \<open>Presentation collaborator\<close>

text \<open>
  Modelled from the spec: \<open>LveRenderer\<close> (\<open>lve_renderer.hpp\<close> is not among the sources).
  \<open>beginFrame\<close> yields a command sequence handle, or nothing when the target surface is
  temporarily unavailable, or fails fatally (device loss). The frame slot index is a cyclic
  counter over \<open>[0, N)\<close>: \<open>getFrameIndex\<close> reads it and releasing a frame (\<open>endFrame\<close>)
  advances it modulo \<open>N\<close>, so that the F-th acquired slot is \<open>F mod N\<close>.
\<close>

datatype begin_outcome = ImageAcquired nat | SurfaceUnavailable | DeviceLost

datatype error = FatalDeviceError | SlotOutOfRange nat

record LveRenderer =
  currentFrameIndex :: nat
  isFrameStarted :: bool

definition beginFrame :: "begin_outcome \<Rightarrow> LveRenderer \<Rightarrow> error + (nat option \<times> LveRenderer)" where
  "beginFrame outcome r =
     (case outcome of
        ImageAcquired cb \<Rightarrow> Inr (Some cb, r\<lparr>isFrameStarted := True\<rparr>)
      | SurfaceUnavailable \<Rightarrow> Inr (None, r)
      | DeviceLost \<Rightarrow> Inl FatalDeviceError)"

definition getFrameIndex :: "LveRenderer \<Rightarrow> nat" where
  "getFrameIndex r = currentFrameIndex r"

definition endFrame :: "nat \<Rightarrow> LveRenderer \<Rightarrow> LveRenderer" where
  "endFrame N r = r\<lparr>isFrameStarted := False, currentFrameIndex := (currentFrameIndex r + 1) mod N\<rparr>"

subsection \<open>Render subsystems\<close>

text \<open>
  Modelled from the spec: \<open>PointLightSystem::update\<close> (\<open>point_light_system.hpp\<close> is not
  among the sources). It scans the Scene Registry in iteration order for entities carrying a
  light attribute and writes their descriptors into the block, up to a fixed maximum count;
  lights beyond the maximum are dropped silently. Spec 4.4 lets an update phase read and
  write scene and state, while spec 5 keeps the registry read-only during a frame; the
  model follows 4.3 and spec 5 and returns the block only, so no statement below says
  that a subsystem leaves the registry alone.
\<close>

definition descriptor :: "LveGameObject \<Rightarrow> PointLightComponent \<Rightarrow> PointLight" where
  "descriptor obj pl =
     \<lparr>light_position = translation (transform obj),
      light_color = color obj,
      light_intensity = lightIntensity pl\<rparr>"

fun scanLights :: "nat \<Rightarrow> Map \<Rightarrow> PointLight list \<Rightarrow> PointLight list" where
  "scanLights maxLights [] acc = acc"
| "scanLights maxLights ((k, obj) # rest) acc =
     (case pointLight obj of
        None \<Rightarrow> scanLights maxLights rest acc
      | Some pl \<Rightarrow>
          (if length acc < maxLights
           then scanLights maxLights rest (acc @ [descriptor obj pl])
           else scanLights maxLights rest acc))"

definition pointLightSystem_update ::
  "nat \<Rightarrow> 'cam FrameInfo \<Rightarrow> 'm GlobalUbo \<Rightarrow> 'm GlobalUbo" where
  "pointLightSystem_update maxLights frameInfo ubo =
     (let lights = scanLights maxLights (fi_gameObjects frameInfo) []
      in ubo\<lparr>pointLights := lights, numLights := length lights\<rparr>)"

text \<open>
  Modelled from the spec: the render phases of \<open>SimpleRenderSystem\<close> and
  \<open>PointLightSystem\<close> (\<open>systems/*.hpp\<close> are not among the sources). Each issues draw
  commands against the entities it is interested in, in registry order: the opaque-geometry
  subsystem those with a mesh, the point-light subsystem those with a light attribute. Their
  side effects are confined to the command sequence.
\<close>

datatype gpu_cmd = BeginRenderPass | DrawMesh nat | DrawLight nat | EndRenderPass

definition renderGameObjects :: "'cam FrameInfo \<Rightarrow> gpu_cmd list" where
  "renderGameObjects frameInfo =
     map (\<lambda>kv. DrawMesh (fst kv)) (filter (\<lambda>kv. model (snd kv) \<noteq> None) (fi_gameObjects frameInfo))"

definition pointLightSystem_render :: "'cam FrameInfo \<Rightarrow> gpu_cmd list" where
  "pointLightSystem_render frameInfo =
     map (\<lambda>kv. DrawLight (fst kv)) (filter (\<lambda>kv. pointLight (snd kv) \<noteq> None) (fi_gameObjects frameInfo))"

section \<open>The frame loop\<close>

text \<open>One entry per collaborator call of \<open>run\<close>, in the order the calls are made.\<close>

datatype ('cam, 'm) event =
    EvPollEvents
  | EvMoveInPlaneXZ real
  | EvSetViewYXZ
  | EvSetPerspectiveProjection real
  | EvBeginFrame begin_outcome
  | EvGetFrameIndex nat
  | EvPointLightUpdate "'cam FrameInfo"
  | EvWriteToBuffer nat "'m GlobalUbo"
  | EvFlush nat
  | EvBeginSwapChainRenderPass nat
  | EvRenderGameObjects "'cam FrameInfo"
  | EvPointLightRender "'cam FrameInfo"
  | EvEndSwapChainRenderPass nat
  | EvEndFrame
  | EvWaitIdle

text \<open>
  The state \<open>run\<close> works on: its locals that live across iterations (\<open>currentTime\<close>,
  \<open>viewerObject\<close>, \<open>camera\<close>, \<open>uboBuffers\<close>, \<open>globalDescriptorSets\<close>), the members
  \<open>lveRenderer\<close> and \<open>gameObjects\<close>, the recorded GPU commands and the log of calls.
  A buffer that was never written holds \<open>None\<close>.
\<close>

record ('cam, 'm) app =
  currentTime :: time_point
  viewerObject :: LveGameObject
  camera :: 'cam
  uboBuffers :: "'m GlobalUbo option list"
  globalDescriptorSets :: "nat list"
  lveRenderer :: LveRenderer
  gameObjects :: Map
  commands :: "gpu_cmd list"
  calls :: "('cam, 'm) event list"

text \<open>What the environment answers during one pass through the loop.\<close>

record 'inp tick =
  shouldClose :: bool
  newTime :: time_point
  window_input :: 'inp
  getAspectRatio :: real
  begin_result :: begin_outcome

definition log_call :: "('cam, 'm) event \<Rightarrow> ('cam, 'm) app \<Rightarrow> ('cam, 'm) app" where
  "log_call e s = s\<lparr>calls := calls s @ [e]\<rparr>"

definition record_cmds :: "gpu_cmd list \<Rightarrow> ('cam, 'm) app \<Rightarrow> ('cam, 'm) app" where
  "record_cmds cs s = s\<lparr>commands := commands s @ cs\<rparr>"

text \<open>
  Lines 121-132: poll events, take the clock, compute the frame time in \<open>float\<close> seconds
  from the new and the previous reading, move the viewer, recompute view and projection.
  It returns the frame time with the state.
\<close>

definition advance_camera ::
  "('inp, 'cam, 'm) Collab \<Rightarrow> 'inp tick \<Rightarrow> ('cam, 'm) app \<Rightarrow> real \<times> ('cam, 'm) app" where
  "advance_camera K t s =
     (let s = log_call EvPollEvents s;
          dt = frame_seconds (currentTime s) (newTime t);
          s = s\<lparr>currentTime := newTime t\<rparr>;
          s = log_call (EvMoveInPlaneXZ dt)
                (s\<lparr>viewerObject := moveInPlaneXZ K (window_input t) dt (viewerObject s)\<rparr>);
          s = log_call EvSetViewYXZ
                (s\<lparr>camera := setViewYXZ K (translation (transform (viewerObject s)))
                                            (rotation (transform (viewerObject s))) (camera s)\<rparr>);
          aspect = getAspectRatio t;
          s = log_call (EvSetPerspectiveProjection aspect)
                (s\<lparr>camera := setPerspectiveProjection K (radians 50) aspect (1 / 10) 100 (camera s)\<rparr>)
      in (dt, s))"

text \<open>
  Lines 135-161, the body of the \<open>if\<close>: the frame that was begun with command buffer \<open>cb\<close>.
  Indexing \<open>uboBuffers\<close> or \<open>globalDescriptorSets\<close> out of range is undefined in C++ and an
  error value here.
\<close>

definition render_frame ::
  "('inp, 'cam, 'm) Collab \<Rightarrow> nat \<Rightarrow> real \<Rightarrow> ('cam, 'm) app \<Rightarrow> error + ('cam, 'm) app" where
  "render_frame K cb dt s =
     (let i = getFrameIndex (lveRenderer s);
          s = log_call (EvGetFrameIndex i) s in
      if i < length (globalDescriptorSets s) \<and> i < length (uboBuffers s) then
        (let frameInfo = \<lparr>frameIndex = i, frameTime = dt, commandBuffer = cb,
                          fi_camera = camera s,
                          globalDescriptorSet = globalDescriptorSets s ! i,
                          fi_gameObjects = gameObjects s\<rparr>;
             ubo = \<lparr>projection = default_matrix K, view = default_matrix K,
                    inverseView = default_matrix K, pointLights = [], numLights = 0\<rparr>;
             ubo = ubo\<lparr>projection := getProjection K (camera s)\<rparr>;
             ubo = ubo\<lparr>view := getView K (camera s)\<rparr>;
             ubo = ubo\<lparr>inverseView := getInverseView K (camera s)\<rparr>;
             ubo = pointLightSystem_update (MAX_LIGHTS K) frameInfo ubo;
             s = log_call (EvPointLightUpdate frameInfo) s;
             s = log_call (EvWriteToBuffer i ubo) (s\<lparr>uboBuffers := (uboBuffers s)[i := Some ubo]\<rparr>);
             s = log_call (EvFlush i) s;
             s = log_call (EvBeginSwapChainRenderPass cb) (record_cmds [BeginRenderPass] s);
             s = log_call (EvRenderGameObjects frameInfo) (record_cmds (renderGameObjects frameInfo) s);
             s = log_call (EvPointLightRender frameInfo) (record_cmds (pointLightSystem_render frameInfo) s);
             s = log_call (EvEndSwapChainRenderPass cb) (record_cmds [EndRenderPass] s);
             s = log_call EvEndFrame
                   (s\<lparr>lveRenderer := endFrame (MAX_FRAMES_IN_FLIGHT K) (lveRenderer s)\<rparr>)
         in Inr s)
      else Inl (SlotOutOfRange i))"

text \<open>One pass through the body of the \<open>while\<close> loop, lines 121-162.\<close>

definition iteration ::
  "('inp, 'cam, 'm) Collab \<Rightarrow> 'inp tick \<Rightarrow> ('cam, 'm) app \<Rightarrow> error + ('cam, 'm) app" where
  "iteration K t s =
     (case advance_camera K t s of
        (dt, s1) \<Rightarrow>
          (case beginFrame (begin_result t) (lveRenderer s1) of
             Inl e \<Rightarrow> Inl e
           | Inr (cmdbuf, r) \<Rightarrow>
               (let s2 = log_call (EvBeginFrame (begin_result t)) (s1\<lparr>lveRenderer := r\<rparr>)
                in case cmdbuf of
                     None \<Rightarrow> Inr s2
                   | Some cb \<Rightarrow> render_frame K cb dt s2)))"

text \<open>
  The \<open>while (!lveWindow.shouldClose())\<close> loop followed by \<open>vkDeviceWaitIdle\<close>. The window
  decides when the loop ends, so the environment is a list of ticks: the loop returns at the
  first tick whose \<open>shouldClose\<close> is true, and \<open>None\<close> says that the list ran out with the loop
  still running.
\<close>

fun run_loop ::
  "('inp, 'cam, 'm) Collab \<Rightarrow> 'inp tick list \<Rightarrow> ('cam, 'm) app \<Rightarrow> (error + ('cam, 'm) app) option" where
  "run_loop K [] s = None"
| "run_loop K (t # ts) s =
     (if shouldClose t then Some (Inr (log_call EvWaitIdle s))
      else (case iteration K t s of
              Inl e \<Rightarrow> Some (Inl e)
            | Inr s' \<Rightarrow> run_loop K ts s'))"

text \<open>
  The prologue of \<open>run\<close>, lines 81-119: one mapped buffer and one descriptor set per frame in
  flight (descriptor set \<open>i\<close> is written with the buffer info of \<open>uboBuffers[i]\<close>), the default
  camera, the viewer object at \<open>z = -2.5\<close> and the first clock reading. The member
  \<open>lveRenderer\<close> starts with its ring index at 0, the slot of frame 0 in the spec.
\<close>

definition run_init ::
  "('inp, 'cam, 'm) Collab \<Rightarrow> time_point \<Rightarrow> Map \<Rightarrow> nat \<Rightarrow> ('cam, 'm) app" where
  "run_init K now objs currentId =
     (let viewer = fst (createGameObject currentId);
          viewer = viewer\<lparr>transform := (transform viewer)
                     \<lparr>translation := (translation (transform viewer))\<lparr>vec_z := - 5 / 2\<rparr>\<rparr>\<rparr>
      in \<lparr>currentTime = now,
          viewerObject = viewer,
          camera = camera0 K,
          uboBuffers = replicate (MAX_FRAMES_IN_FLIGHT K) None,
          globalDescriptorSets = [0 ..< MAX_FRAMES_IN_FLIGHT K],
          lveRenderer = \<lparr>currentFrameIndex = 0, isFrameStarted = False\<rparr>,
          gameObjects = objs,
          commands = [],
          calls = []\<rparr>)"

definition run ::
  "('inp, 'cam, 'm) Collab \<Rightarrow> time_point \<Rightarrow> Map \<Rightarrow> nat \<Rightarrow> 'inp tick list \<Rightarrow> (error + ('cam, 'm) app) option" where
  "run K now objs currentId ts = run_loop K ts (run_init K now objs currentId)"

text \<open>The state after the loop body has run once for each tick of a list, in order.\<close>

fun frames ::
  "('inp, 'cam, 'm) Collab \<Rightarrow> 'inp tick list \<Rightarrow> ('cam, 'm) app \<Rightarrow> error + ('cam, 'm) app" where
  "frames K [] s = Inr s"
| "frames K (t # ts) s =
     (case iteration K t s of
        Inl e \<Rightarrow> Inl e
      | Inr s' \<Rightarrow> frames K ts s')"

section \<open>Observations on a run\<close>

text \<open>The calls made between two states of the loop.\<close>

definition new_calls :: "('cam, 'm) app \<Rightarrow> ('cam, 'm) app \<Rightarrow> ('cam, 'm) event list" where
  "new_calls s s' = drop (length (calls s)) (calls s')"

fun is_render :: "('cam, 'm) event \<Rightarrow> bool" where
  "is_render (EvRenderGameObjects fi) = True"
| "is_render (EvPointLightRender fi) = True"
| "is_render e = False"

fun is_update :: "('cam, 'm) event \<Rightarrow> bool" where
  "is_update (EvPointLightUpdate fi) = True"
| "is_update e = False"

fun is_write :: "('cam, 'm) event \<Rightarrow> bool" where
  "is_write (EvWriteToBuffer i ubo) = True"
| "is_write e = False"

text \<open>The Frame Context handed to a subsystem by a call, if the call is one to a subsystem.\<close>

fun context_of :: "('cam, 'm) event \<Rightarrow> 'cam FrameInfo list" where
  "context_of (EvPointLightUpdate fi) = [fi]"
| "context_of (EvRenderGameObjects fi) = [fi]"
| "context_of (EvPointLightRender fi) = [fi]"
| "context_of e = []"

definition contexts :: "('cam, 'm) event list \<Rightarrow> 'cam FrameInfo list" where
  "contexts es = concat (map context_of es)"

fun slot_of :: "('cam, 'm) event \<Rightarrow> nat list" where
  "slot_of (EvGetFrameIndex i) = [i]"
| "slot_of e = []"

definition slot_sequence :: "('cam, 'm) event list \<Rightarrow> nat list" where
  "slot_sequence es = concat (map slot_of es)"

fun is_acquired :: "begin_outcome \<Rightarrow> bool" where
  "is_acquired (ImageAcquired cb) = True"
| "is_acquired outcome = False"

text \<open>\<open>before x y es\<close>: both calls occur in \<open>es\<close> and the first \<open>x\<close> comes before the first \<open>y\<close>.\<close>

fun before :: "'a \<Rightarrow> 'a \<Rightarrow> 'a list \<Rightarrow> bool" where
  "before x y [] = False"
| "before x y (e # es) =
     (if e = y then False else if e = x then y \<in> set es else before x y es)"

text \<open>The frame time handed to the first subsystem call of each rendered frame.\<close>

fun delta_of :: "('cam, 'm) event \<Rightarrow> real list" where
  "delta_of (EvPointLightUpdate fi) = [frameTime fi]"
| "delta_of e = []"

definition frame_deltas :: "error + ('cam, 'm) app \<Rightarrow> real list" where
  "frame_deltas r = (case r of Inl e \<Rightarrow> [] | Inr s \<Rightarrow> concat (map delta_of (calls s)))"

text \<open>How many ticks of a list begin a frame, and whether a tick ends the run with a fatal error.\<close>

definition acquired_count :: "'inp tick list \<Rightarrow> nat" where
  "acquired_count ts = length (filter (\<lambda>t. is_acquired (begin_result t)) ts)"

fun not_lost :: "begin_outcome \<Rightarrow> bool" where
  "not_lost DeviceLost = False"
| "not_lost outcome = True"

text \<open>The frame times of successive clock readings, one for each tick that begins a frame.\<close>

fun clock_deltas :: "time_point \<Rightarrow> 'inp tick list \<Rightarrow> real list" where
  "clock_deltas previous [] = []"
| "clock_deltas previous (t # ts) =
     (if is_acquired (begin_result t) then [frame_seconds previous (newTime t)] else [])
       @ clock_deltas (newTime t) ts"

text \<open>The slots are usable: one buffer and one descriptor set per frame in flight, and the
  ring index within them.\<close>

definition slots_ok :: "('inp, 'cam, 'm) Collab \<Rightarrow> ('cam, 'm) app \<Rightarrow> bool" where
  "slots_ok K s =
     (length (uboBuffers s) = MAX_FRAMES_IN_FLIGHT K \<and>
      length (globalDescriptorSets s) = MAX_FRAMES_IN_FLIGHT K \<and>
      currentFrameIndex (lveRenderer s) < MAX_FRAMES_IN_FLIGHT K)"

text \<open>What lines 128-132 compute from a tick: the moved viewer and the camera set from it.\<close>

definition moved_viewer ::
  "('inp, 'cam, 'm) Collab \<Rightarrow> 'inp tick \<Rightarrow> ('cam, 'm) app \<Rightarrow> LveGameObject" where
  "moved_viewer K t s =
     moveInPlaneXZ K (window_input t) (frame_seconds (currentTime s) (newTime t)) (viewerObject s)"

definition updated_camera ::
  "('inp, 'cam, 'm) Collab \<Rightarrow> 'inp tick \<Rightarrow> ('cam, 'm) app \<Rightarrow> 'cam" where
  "updated_camera K t s =
     setPerspectiveProjection K (radians 50) (getAspectRatio t) (1 / 10) 100
       (setViewYXZ K (translation (transform (moved_viewer K t s)))
                     (rotation (transform (moved_viewer K t s))) (camera s))"

text \<open>The Frame Context and the Shared State Block of the frame begun at tick \<open>t\<close> in state \<open>s\<close>.\<close>

definition frame_context ::
  "('inp, 'cam, 'm) Collab \<Rightarrow> 'inp tick \<Rightarrow> nat \<Rightarrow> ('cam, 'm) app \<Rightarrow> 'cam FrameInfo" where
  "frame_context K t cb s =
     \<lparr>frameIndex = currentFrameIndex (lveRenderer s),
      frameTime = frame_seconds (currentTime s) (newTime t),
      commandBuffer = cb,
      fi_camera = updated_camera K t s,
      globalDescriptorSet = globalDescriptorSets s ! currentFrameIndex (lveRenderer s),
      fi_gameObjects = gameObjects s\<rparr>"

definition frame_block ::
  "('inp, 'cam, 'm) Collab \<Rightarrow> 'inp tick \<Rightarrow> nat \<Rightarrow> ('cam, 'm) app \<Rightarrow> 'm GlobalUbo" where
  "frame_block K t cb s =
     pointLightSystem_update (MAX_LIGHTS K) (frame_context K t cb s)
       \<lparr>projection = getProjection K (updated_camera K t s),
        view = getView K (updated_camera K t s),
        inverseView = getInverseView K (updated_camera K t s),
        pointLights = [], numLights = 0\<rparr>"

text \<open>The descriptors of the light-carrying entities of a registry, in iteration order.\<close>

fun light_of :: "nat \<times> LveGameObject \<Rightarrow> PointLight list" where
  "light_of (k, obj) = (case pointLight obj of None \<Rightarrow> [] | Some pl \<Rightarrow> [descriptor obj pl])"

definition light_descriptors :: "Map \<Rightarrow> PointLight list" where
  "light_descriptors m = concat (map light_of m)"

subsection \<open>A small scene and small collaborators to run the loop on\<close>

definition demo_K :: "(int, real \<times> real, real) Collab" where
  "demo_K =
     \<lparr>MAX_FRAMES_IN_FLIGHT = 2,
      MAX_LIGHTS = 1,
      moveInPlaneXZ = (\<lambda>keys dt obj. obj\<lparr>transform := (transform obj)
         \<lparr>translation := (translation (transform obj))
            \<lparr>vec_z := vec_z (translation (transform obj)) + of_int keys * dt\<rparr>\<rparr>\<rparr>),
      setViewYXZ = (\<lambda>position rot c. (fst c, vec_z position)),
      setPerspectiveProjection = (\<lambda>fovy aspect near far c. (aspect, snd c)),
      getProjection = fst,
      getView = snd,
      getInverseView = (\<lambda>c. - snd c),
      camera0 = (1, 0),
      default_matrix = 0\<rparr>"

definition demo_tick :: "time_point \<Rightarrow> real \<Rightarrow> begin_outcome \<Rightarrow> int tick" where
  "demo_tick time aspect outcome =
     \<lparr>shouldClose = False, newTime = time, window_input = 1,
      getAspectRatio = aspect, begin_result = outcome\<rparr>"


definition demo_floor :: LveGameObject where
  "demo_floor = (fst (createGameObject 0))\<lparr>model := Some ''models/quad.obj''\<rparr>"

definition demo_scene :: "Map \<times> nat" where
  "demo_scene = loadSolarLight (loadSolarLight (emplace 0 demo_floor [], 1))"

definition demo_start :: "(real \<times> real, real) app" where
  "demo_start = run_init demo_K 0 (fst demo_scene) (snd demo_scene)"

definition demo_frame :: "int tick" where
  "demo_frame = demo_tick 1000000000 (16 / 9) (ImageAcquired 7)"

definition demo_skip :: "int tick" where
  "demo_skip = demo_tick 1000000000 (16 / 9) SurfaceUnavailable"

definition demo_skip2 :: "int tick" where
  "demo_skip2 = demo_tick 3000000000 (4 / 3) SurfaceUnavailable"

definition demo_frame2 :: "int tick" where
  "demo_frame2 = demo_tick 3000000000 (4 / 3) (ImageAcquired 8)"

definition demo_light :: PointLight where
  "demo_light =
     \<lparr>light_position = \<lparr>vec_x = - 2, vec_y = - 30, vec_z = - 5\<rparr>,
      light_color = \<lparr>vec_x = 1, vec_y = 1 / 2, vec_z = 0\<rparr>,
      light_intensity = 3502 / 10\<rparr>"

definition demo_objs :: "LveGameObject list" where
  "demo_objs = [demo_floor, fst (makePointLight 5 1), fst (makePointLight 6 2)]"

definition demo_five :: "int tick list" where
  "demo_five = [demo_frame, demo_skip, demo_frame, demo_frame, demo_frame, demo_frame]"

definition demo_late :: "int tick" where
  "demo_late = demo_tick 4097000000000 (16 / 9) (ImageAcquired 9)"

section \<open>Conversion of a tick count to float seconds\<close>

text \<open>
  Rounding keeps the sign and never rounds a nonzero count to zero, and the seconds it yields
  differ from the exact quotient by a relative error below \<open>2 ^ -22\<close>.
\<close>

lemma round_div_near:
  assumes "0 < q"
  shows "\<bar>real_of_int (round_div p q) - real_of_int p / real_of_int q\<bar> \<le> 1 / 2"
proof -
  let ?n = "p div q" and ?r = "p mod q"
  have r: "0 \<le> ?r" "?r < q"
    using assms by simp_all
  have split: "real_of_int p / real_of_int q = real_of_int ?n + real_of_int ?r / real_of_int q"
    by (rule of_int_div_aux)
  consider (down) "2 * ?r < q" | (up) "q < 2 * ?r" | (tie) "2 * ?r = q"
    by linarith
  then show ?thesis
  proof cases
    case down
    then have "real_of_int ?r / real_of_int q < 1 / 2"
      using assms by (simp add: field_simps)
    moreover have "0 \<le> real_of_int ?r / real_of_int q"
      using r assms by simp
    ultimately show ?thesis
      using down by (simp add: round_div_def split)
  next
    case up
    then have "1 / 2 < real_of_int ?r / real_of_int q"
      using assms by (simp add: field_simps)
    moreover have "real_of_int ?r / real_of_int q < 1"
      using r assms by simp
    ultimately show ?thesis
      using up by (simp add: round_div_def split)
  next
    case tie
    then have half: "real_of_int ?r / real_of_int q = 1 / 2"
      using assms by (simp add: field_simps)
    have "round_div p q = ?n \<or> round_div p q = ?n + 1"
      using tie by (simp add: round_div_def Let_def)
    then show ?thesis
      unfolding split half by auto
  qed
qed

lemma round_div_ge:
  "p div q \<le> round_div p q"
  by (simp add: round_div_def Let_def)

lemma round_div_one [simp]: "round_div p 1 = p"
  by (simp add: round_div_def)

lemma bitlen_shift:
  assumes "0 < a" and "0 < nat (bitlen a - 24)"
  shows "2 ^ (nat (bitlen a - 24) + 23) \<le> a"
proof -
  have "nat (bitlen a - 1) = nat (bitlen a - 24) + 23"
    using assms(2) by simp
  with bitlen_bounds [OF assms(1)] show ?thesis
    by simp
qed

lemma round_mantissa_pos:
  assumes "0 < a"
  shows "0 < round_div a (2 ^ nat (bitlen a - 24))"
proof -
  let ?k = "nat (bitlen a - 24)"
  have "(2::int) ^ ?k \<le> a"
  proof (cases "?k = 0")
    case True
    with assms show ?thesis by simp
  next
    case False
    then have "(2::int) ^ (?k + 23) \<le> a"
      using bitlen_shift [OF assms] by simp
    moreover have "(2::int) ^ ?k \<le> 2 ^ (?k + 23)"
      by (rule power_increasing) simp_all
    ultimately show ?thesis by linarith
  qed
  then have "0 < a div 2 ^ ?k"
    by (simp add: pos_imp_zdiv_pos_iff)
  with round_div_ge [of a "2 ^ ?k"] show ?thesis
    by linarith
qed

lemma round_mantissa_error:
  assumes "0 < a"
  shows "\<bar>real_of_int (round_div a (2 ^ nat (bitlen a - 24)) * 2 ^ nat (bitlen a - 24)) - real_of_int a\<bar>
           \<le> real_of_int a / 2 ^ 24"
proof -
  let ?k = "nat (bitlen a - 24)"
  let ?m = "round_div a (2 ^ ?k)"
  show ?thesis
  proof (cases "?k = 0")
    case True
    with assms show ?thesis by simp
  next
    case False
    have near: "\<bar>real_of_int ?m - real_of_int a / real_of_int (2 ^ ?k)\<bar> \<le> 1 / 2"
      by (rule round_div_near) simp
    have "\<bar>real_of_int (?m * 2 ^ ?k) - real_of_int a\<bar> =
            \<bar>real_of_int ?m - real_of_int a / real_of_int (2 ^ ?k)\<bar> * 2 ^ ?k"
      by (simp add: abs_mult [symmetric] field_simps)
    also have "\<dots> \<le> 1 / 2 * 2 ^ ?k"
      using near by (simp add: mult_right_mono)
    also have "\<dots> = 2 ^ (?k + 23) / 2 ^ 24"
      by (simp add: power_add)
    also have "\<dots> \<le> real_of_int a / 2 ^ 24"
    proof -
      have "(2::int) ^ (?k + 23) \<le> a"
        using bitlen_shift [OF assms] False by simp
      then have "real_of_int (2 ^ (?k + 23)) \<le> real_of_int a"
        by (simp only: of_int_le_iff)
      then show ?thesis
        by (simp add: divide_right_mono)
    qed
    finally show ?thesis .
  qed
qed

lemma float_of_int64_sgn: "sgn (float_of_int64 n) = sgn n"
proof (cases "n = 0")
  case True
  then show ?thesis by (simp add: float_of_int64_def)
next
  case False
  then have "0 < \<bar>n\<bar>" by simp
  from round_mantissa_pos [OF this] show ?thesis
    by (simp add: float_of_int64_def Let_def sgn_mult)
qed

lemma float_of_int64_error:
  "\<bar>real_of_int (float_of_int64 n) - real_of_int n\<bar> \<le> \<bar>real_of_int n\<bar> / 2 ^ 24"
proof (cases "n = 0")
  case True
  then show ?thesis by (simp add: float_of_int64_def)
next
  case False
  then have pos: "0 < \<bar>n\<bar>" by simp
  let ?v = "round_div \<bar>n\<bar> (2 ^ nat (bitlen \<bar>n\<bar> - 24)) * 2 ^ nat (bitlen \<bar>n\<bar> - 24)"
  have v: "float_of_int64 n = sgn n * ?v"
    by (simp add: float_of_int64_def Let_def)
  have n: "n = sgn n * \<bar>n\<bar>"
    by (simp add: sgn_mult_abs)
  have "real_of_int (float_of_int64 n) - real_of_int n =
          real_of_int (sgn n) * (real_of_int ?v - real_of_int \<bar>n\<bar>)"
    by (subst (2) n, subst v) (simp only: of_int_mult right_diff_distrib)
  moreover have "\<bar>real_of_int (sgn n)\<bar> = 1"
    using False by (simp add: sgn_if)
  ultimately have "\<bar>real_of_int (float_of_int64 n) - real_of_int n\<bar> =
          \<bar>real_of_int ?v - real_of_int \<bar>n\<bar>\<bar>"
    by (simp only: abs_mult mult_1)
  with round_mantissa_error [OF pos] show ?thesis
    by simp
qed

lemma bitlen_pos: "0 < a \<Longrightarrow> 1 \<le> bitlen a"
  using bitlen_eq_zero_iff [of a] bitlen_nonneg [of a] by linarith

lemma float_exponent_first:
  assumes "0 < p" and "0 < q"
  shows "2 ^ 23 * (q * 2 ^ nat (bitlen p - bitlen q - 24)) \<le> p * 2 ^ nat (- (bitlen p - bitlen q - 24))"
proof -
  let ?e = "bitlen p - bitlen q - 24"
  have lp: "2 ^ nat (bitlen p - 1) \<le> p" and lq: "q < 2 ^ nat (bitlen q)"
    using bitlen_bounds [OF assms(1)] bitlen_bounds [OF assms(2)] by simp_all
  have bp: "1 \<le> bitlen p" and bq: "1 \<le> bitlen q"
    using assms by (simp_all add: bitlen_pos)
  show ?thesis
  proof (cases "0 \<le> ?e")
    case True
    then have exps: "nat (bitlen p - 1) = 23 + (nat (bitlen q) + nat ?e)" and z: "nat (- ?e) = 0"
      using bq by simp_all
    have "2 ^ 23 * (q * 2 ^ nat ?e) \<le> 2 ^ 23 * (2 ^ nat (bitlen q) * 2 ^ nat ?e)"
      using lq by (simp add: mult_right_mono)
    also have "\<dots> = 2 ^ nat (bitlen p - 1)"
      by (simp only: exps power_add)
    also have "\<dots> \<le> p"
      by (rule lp)
    finally show ?thesis
      unfolding z by simp
  next
    case False
    then have exps: "nat (bitlen p - 1) + nat (- ?e) = 23 + nat (bitlen q)" and z: "nat ?e = 0"
      using bp bq by simp_all
    have "2 ^ 23 * q \<le> 2 ^ 23 * 2 ^ nat (bitlen q)"
      using lq by simp
    also have "\<dots> = 2 ^ nat (bitlen p - 1) * 2 ^ nat (- ?e)"
      by (simp only: exps power_add [symmetric])
    also have "\<dots> \<le> p * 2 ^ nat (- ?e)"
      using lp by (simp add: mult_right_mono)
    finally show ?thesis
      unfolding z by simp
  qed
qed

lemma float_exponent_second:
  fixes p q e :: int
  assumes "\<not> p * 2 ^ nat (- e) < 2 ^ 24 * (q * 2 ^ nat e)"
  shows "2 ^ 23 * (q * 2 ^ nat (e + 1)) \<le> p * 2 ^ nat (- (e + 1))"
proof (cases "0 \<le> e")
  case True
  then have n: "nat (e + 1) = Suc (nat e)" "nat (- (e + 1)) = 0" "nat (- e) = 0"
    by simp_all
  from assms show ?thesis
    unfolding n by simp
next
  case False
  then have n: "nat (e + 1) = 0" "nat e = 0" "nat (- e) = Suc (nat (- (e + 1)))"
    by simp_all
  from assms show ?thesis
    unfolding n by simp
qed

lemma float_exponent_lower:
  assumes "0 < p" and "0 < q"
  shows "2 ^ 23 * (q * 2 ^ nat (float_exponent p q)) \<le> p * 2 ^ nat (- float_exponent p q)"
proof (cases "p * 2 ^ nat (- (bitlen p - bitlen q - 24)) < 2 ^ 24 * (q * 2 ^ nat (bitlen p - bitlen q - 24))")
  case True
  with float_exponent_first [OF assms] show ?thesis
    by (simp add: float_exponent_def Let_def)
next
  case False
  with float_exponent_second [OF False] show ?thesis
    by (simp add: float_exponent_def Let_def)
qed

lemma half_ulp:
  fixes y w :: real
  assumes "2 ^ 23 * w \<le> y"
  shows "1 / 2 * w \<le> y / 2 ^ 24"
  using assms by simp

lemma scaled_quotient:
  assumes "q \<noteq> 0"
  shows "real_of_int (p * 2 ^ nat (- e)) / real_of_int (q * 2 ^ nat e) * 2 powi e =
           real_of_int p / real_of_int q"
proof (cases "0 \<le> e")
  case True
  then have "nat (- e) = 0" by simp
  with True assms show ?thesis
    by (simp add: power_int_def)
next
  case False
  then have "nat e = 0" by simp
  with False assms show ?thesis
    by (simp add: power_int_def field_simps)
qed

lemma float_mantissa_large:
  assumes "0 < p" and "0 < q"
  shows "2 ^ 23 \<le> round_div (p * 2 ^ nat (- float_exponent p q)) (q * 2 ^ nat (float_exponent p q))"
proof -
  let ?P = "p * 2 ^ nat (- float_exponent p q)" and ?Q = "q * 2 ^ nat (float_exponent p q)"
  have Q: "0 < ?Q"
    using assms(2) by simp
  have "2 ^ 23 * ?Q \<le> ?P"
    by (rule float_exponent_lower [OF assms])
  then have "(2 ^ 23 * ?Q) div ?Q \<le> ?P div ?Q"
    using Q by (rule zdiv_mono1)
  moreover have "?Q \<noteq> 0"
    using assms(2) by simp
  then have "(2 ^ 23 * ?Q) div ?Q = 2 ^ 23"
    by (rule nonzero_mult_div_cancel_right)
  ultimately have "2 ^ 23 \<le> ?P div ?Q"
    by (simp only:)
  with round_div_ge [of ?P ?Q] show ?thesis
    by linarith
qed

lemma float_div_sign:
  assumes "0 < b"
  shows "(0 \<le> float_div a b \<longleftrightarrow> 0 \<le> a) \<and> (float_div a b = 0 \<longleftrightarrow> a = 0)"
proof (cases "a = 0")
  case True
  then show ?thesis by (simp add: float_div_def)
next
  case False
  let ?e = "float_exponent \<bar>a\<bar> b"
  let ?m = "round_div (\<bar>a\<bar> * 2 ^ nat (- ?e)) (b * 2 ^ nat ?e)"
  have m: "0 < ?m"
    using float_mantissa_large [of "\<bar>a\<bar>" b] False assms by simp
  have v: "float_div a b = real_of_int (sgn a * ?m) * 2 powi ?e"
    using False by (simp add: float_div_def Let_def)
  have pw: "(0::real) < 2 powi ?e"
    by simp
  show ?thesis
  proof (cases "0 < a")
    case True
    with m have "0 < sgn a * ?m" by simp
    then have "0 < real_of_int (sgn a * ?m) * 2 powi ?e"
      using pw by (simp only: mult_pos_pos of_int_0_less_iff)
    then have "0 < float_div a b"
      by (simp only: v)
    with True show ?thesis by auto
  next
    case neg: False
    with False have a: "a < 0" by simp
    with m have "sgn a * ?m < 0" by simp
    then have "real_of_int (sgn a * ?m) * 2 powi ?e < 0"
      using pw by (simp only: mult_neg_pos of_int_less_0_iff)
    then have "float_div a b < 0"
      by (simp only: v)
    with a show ?thesis by auto
  qed
qed

lemma float_div_error:
  assumes "0 < b"
  shows "\<bar>float_div a b - real_of_int a / real_of_int b\<bar> \<le> \<bar>real_of_int a / real_of_int b\<bar> / 2 ^ 24"
proof (cases "a = 0")
  case True
  then show ?thesis by (simp add: float_div_def)
next
  case False
  let ?p = "\<bar>a\<bar>"
  let ?e = "float_exponent ?p b"
  let ?P = "?p * 2 ^ nat (- ?e)" and ?Q = "b * 2 ^ nat ?e"
  let ?m = "round_div ?P ?Q"
  let ?x = "real_of_int ?P / real_of_int ?Q"
  have p: "0 < ?p" using False by simp
  have Q: "0 < ?Q" using assms by simp
  have v: "float_div a b = real_of_int (sgn a) * (real_of_int ?m * 2 powi ?e)"
    using False by (simp add: float_div_def Let_def)
  have quot: "?x * 2 powi ?e = real_of_int ?p / real_of_int b"
    using assms by (intro scaled_quotient) simp
  have a: "real_of_int a / real_of_int b = real_of_int (sgn a) * (?x * 2 powi ?e)"
    unfolding quot by (simp add: sgn_if)
  have s: "\<bar>real_of_int (sgn a)\<bar> = 1"
    using False by (simp add: sgn_if)
  have "float_div a b - real_of_int a / real_of_int b =
          real_of_int (sgn a) * ((real_of_int ?m - ?x) * 2 powi ?e)"
    unfolding v a by (simp only: right_diff_distrib left_diff_distrib)
  then have "\<bar>float_div a b - real_of_int a / real_of_int b\<bar> =
          \<bar>real_of_int ?m - ?x\<bar> * 2 powi ?e"
    by (simp add: abs_mult s)
  also have "\<dots> \<le> 1 / 2 * 2 powi ?e"
    using round_div_near [OF Q, of ?P] by (intro mult_right_mono) simp_all
  also have "\<dots> \<le> ?x * 2 powi ?e / 2 ^ 24"
  proof -
    have "2 ^ 23 * ?Q \<le> ?P"
      by (rule float_exponent_lower [OF p assms])
    then have "real_of_int (2 ^ 23 * ?Q) \<le> real_of_int ?P"
      by (simp only: of_int_le_iff)
    then have "2 ^ 23 * real_of_int ?Q \<le> real_of_int ?P"
      by (simp only: of_int_mult of_int_power of_int_numeral)
    moreover have "0 < real_of_int ?Q"
      using Q by (simp only: of_int_0_less_iff)
    ultimately have "2 ^ 23 \<le> ?x"
      by (simp only: pos_le_divide_eq)
    then have "2 ^ 23 * 2 powi ?e \<le> ?x * 2 powi ?e"
      by (intro mult_right_mono) simp_all
    then show ?thesis
      by (rule half_ulp)
  qed
  also have "\<dots> = \<bar>real_of_int a / real_of_int b\<bar> / 2 ^ 24"
    unfolding quot using assms by simp
  finally show ?thesis .
qed

lemma float_of_ticks_per_second: "float_of_int64 ticks_per_second = 1000000000"
  by code_simp

lemma duration_seconds_sign:
  "(0 \<le> duration_seconds d \<longleftrightarrow> 0 \<le> d) \<and> (duration_seconds d = 0 \<longleftrightarrow> d = 0)"
proof -
  have "(0 \<le> float_of_int64 d \<longleftrightarrow> 0 \<le> d) \<and> (float_of_int64 d = 0 \<longleftrightarrow> d = 0)"
    using float_of_int64_sgn [of d] by (auto simp: sgn_if split: if_splits)
  with float_div_sign [of 1000000000 "float_of_int64 d"] show ?thesis
    by (simp add: duration_seconds_def float_of_ticks_per_second)
qed

lemma duration_seconds_error:
  "\<bar>duration_seconds d - real_of_int d / 1000000000\<bar> \<le> \<bar>real_of_int d\<bar> / 1000000000 / 2 ^ 22"
proof -
  let ?x = "real_of_int (float_of_int64 d)"
  let ?d = "real_of_int d"
  have e1: "\<bar>?x - ?d\<bar> \<le> \<bar>?d\<bar> / 2 ^ 24"
    by (rule float_of_int64_error)
  then have x: "\<bar>?x\<bar> \<le> \<bar>?d\<bar> + \<bar>?d\<bar> / 2 ^ 24"
    by linarith
  have e2: "\<bar>duration_seconds d - ?x / 1000000000\<bar> \<le> \<bar>?x / 1000000000\<bar> / 2 ^ 24"
    using float_div_error [of 1000000000 "float_of_int64 d"]
    by (simp add: duration_seconds_def float_of_ticks_per_second)
  have "\<bar>?x / 1000000000 - ?d / 1000000000\<bar> = \<bar>?x - ?d\<bar> / 1000000000"
    by (simp add: diff_divide_distrib [symmetric])
  then have "\<bar>duration_seconds d - ?d / 1000000000\<bar> \<le>
          \<bar>duration_seconds d - ?x / 1000000000\<bar> + \<bar>?x - ?d\<bar> / 1000000000"
    by linarith
  also have "\<dots> \<le> (\<bar>?d\<bar> + \<bar>?d\<bar> / 2 ^ 24) / 1000000000 / 2 ^ 24 + \<bar>?d\<bar> / 2 ^ 24 / 1000000000"
  proof -
    have "\<bar>?x / 1000000000\<bar> / 2 ^ 24 \<le> (\<bar>?d\<bar> + \<bar>?d\<bar> / 2 ^ 24) / 1000000000 / 2 ^ 24"
      using x by (simp add: divide_right_mono)
    moreover have "\<bar>?x - ?d\<bar> / 1000000000 \<le> \<bar>?d\<bar> / 2 ^ 24 / 1000000000"
      using e1 by (simp add: divide_right_mono)
    ultimately show ?thesis
      using e2 by linarith
  qed
  also have "\<dots> \<le> \<bar>?d\<bar> / 1000000000 / 2 ^ 22"
    by (simp add: field_simps)
  finally show ?thesis .
qed

lemma frame_seconds_sign:
  "(0 \<le> frame_seconds a b \<longleftrightarrow> 0 \<le> sint (b - a)) \<and> (frame_seconds a b = 0 \<longleftrightarrow> b = a)"
  using duration_seconds_sign [of "sint (b - a)"]
  by (simp add: frame_seconds_def signed_eq_0_iff)

lemma sint_diff_in_range:
  fixes a b :: "64 word"
  assumes "in_int64_range (sint b - sint a)"
  shows "sint (b - a) = sint b - sint a"
proof -
  have "sint (b - a) = signed_take_bit 63 (sint b - sint a)"
    by (simp add: sint_word_ariths)
  also have "\<dots> = sint b - sint a"
    using assms by (intro signed_take_bit_int_eq_self) (simp_all add: in_int64_range_def)
  finally show ?thesis .
qed

lemma frame_seconds_error:
  "\<bar>frame_seconds a b - real_of_int (sint (b - a)) / 1000000000\<bar>
     \<le> \<bar>real_of_int (sint (b - a))\<bar> / 1000000000 / 2 ^ 22"
  unfolding frame_seconds_def by (rule duration_seconds_error)

lemma demo_seconds:
  "frame_seconds 0 1000000000 = 1"
  "frame_seconds 0 3000000000 = 3"
  "frame_seconds 1000000000 3000000000 = 2"
  "frame_seconds 1000000000 1000000000 = 0"
  "frame_seconds 3000000000 1000000000 = - 2"
  "frame_seconds 1000000000 4097000000000 = 4096"
  "frame_seconds 1000000000 1100000000 = 13421773 / 134217728"
  by code_simp+

lemma bitlen_le:
  assumes "0 < p" and "p < 2 ^ n"
  shows "bitlen p \<le> int n"
proof -
  have "(2::int) ^ nat (bitlen p - 1) \<le> p"
    using bitlen_bounds [OF assms(1)] by simp
  with assms(2) have "(2::int) ^ nat (bitlen p - 1) < 2 ^ n"
    by linarith
  then have "nat (bitlen p - 1) < n"
    by simp
  then show ?thesis
    by linarith
qed

lemma bitlen_ticks_per_second: "bitlen (float_of_int64 ticks_per_second) = 30"
  by code_simp

lemma duration_exponent_range:
  assumes "in_int64_range d" and "d \<noteq> 0"
  shows "- 53 \<le> float_exponent \<bar>float_of_int64 d\<bar> (float_of_int64 ticks_per_second) \<and>
         float_exponent \<bar>float_of_int64 d\<bar> (float_of_int64 ticks_per_second) \<le> 11"
proof -
  let ?x = "\<bar>float_of_int64 d\<bar>"
  have pos: "0 < ?x"
    using float_of_int64_sgn [of d] assms(2) by (auto simp: sgn_if split: if_splits)
  have "\<bar>real_of_int (float_of_int64 d)\<bar> \<le> \<bar>real_of_int d\<bar> + \<bar>real_of_int d\<bar> / 2 ^ 24"
    using float_of_int64_error [of d] by linarith
  moreover have "\<bar>real_of_int d\<bar> \<le> 2 ^ 63"
    using assms(1) by (simp add: in_int64_range_def abs_le_iff)
  ultimately have "\<bar>real_of_int (float_of_int64 d)\<bar> < 2 ^ 64"
    by simp
  then have "real_of_int ?x < real_of_int (2 ^ 64)"
    by simp
  then have "?x < 2 ^ 64"
    by (simp only: of_int_less_iff)
  with pos have hi: "bitlen ?x \<le> 64"
    using bitlen_le [of ?x 64] by simp
  have lo: "1 \<le> bitlen ?x"
    using pos by (rule bitlen_pos)
  from lo hi show ?thesis
    by (simp add: float_exponent_def Let_def bitlen_ticks_per_second)
qed

lemma sint_in_int64_range: "in_int64_range (sint (w :: 64 word))"
  using sint_ge [of w] sint_lt [of w] by (simp add: in_int64_range_def)

text \<open>
  Every tick difference the loop can form is a 64-bit count, so the exponent of the
  quotient by the ticks of a second stays within the range of normal \<open>float\<close> values.
\<close>

lemma frame_exponent_range:
  assumes "b \<noteq> a"
  shows "- 53 \<le> float_exponent \<bar>float_of_int64 (sint (b - a :: 64 word))\<bar> (float_of_int64 ticks_per_second) \<and>
         float_exponent \<bar>float_of_int64 (sint (b - a))\<bar> (float_of_int64 ticks_per_second) \<le> 11"
  using assms by (intro duration_exponent_range sint_in_int64_range) (simp add: signed_eq_0_iff)

section \<open>One pass through the loop body, computed\<close>

lemma advance_camera_eq:
  "advance_camera K t s =
     (frame_seconds (currentTime s) (newTime t),
      s\<lparr>currentTime := newTime t,
        viewerObject := moved_viewer K t s,
        camera := updated_camera K t s,
        calls := calls s @ [EvPollEvents, EvMoveInPlaneXZ (frame_seconds (currentTime s) (newTime t)), EvSetViewYXZ,
                            EvSetPerspectiveProjection (getAspectRatio t)]\<rparr>)"
  by (simp add: advance_camera_def log_call_def Let_def moved_viewer_def updated_camera_def)

lemma iteration_skipped:
  assumes "begin_result t = SurfaceUnavailable"
  shows "iteration K t s =
     Inr (s\<lparr>currentTime := newTime t,
        viewerObject := moved_viewer K t s,
        camera := updated_camera K t s,
        calls := calls s @ [EvPollEvents, EvMoveInPlaneXZ (frame_seconds (currentTime s) (newTime t)), EvSetViewYXZ,
                            EvSetPerspectiveProjection (getAspectRatio t), EvBeginFrame SurfaceUnavailable]\<rparr>)"
  using assms by (simp add: iteration_def beginFrame_def advance_camera_eq log_call_def)

lemma iteration_acquired:
  assumes "begin_result t = ImageAcquired cb"
    and "currentFrameIndex (lveRenderer s) < length (globalDescriptorSets s)"
    and "currentFrameIndex (lveRenderer s) < length (uboBuffers s)"
  shows "iteration K t s =
     Inr (s\<lparr>currentTime := newTime t,
        viewerObject := moved_viewer K t s,
        camera := updated_camera K t s,
        uboBuffers := (uboBuffers s)[currentFrameIndex (lveRenderer s) := Some (frame_block K t cb s)],
        lveRenderer := \<lparr>currentFrameIndex = (currentFrameIndex (lveRenderer s) + 1) mod MAX_FRAMES_IN_FLIGHT K,
                        isFrameStarted = False\<rparr>,
        commands := commands s @ [BeginRenderPass] @ renderGameObjects (frame_context K t cb s)
                      @ pointLightSystem_render (frame_context K t cb s) @ [EndRenderPass],
        calls := calls s @ [EvPollEvents, EvMoveInPlaneXZ (frame_seconds (currentTime s) (newTime t)), EvSetViewYXZ,
                            EvSetPerspectiveProjection (getAspectRatio t), EvBeginFrame (ImageAcquired cb),
                            EvGetFrameIndex (currentFrameIndex (lveRenderer s)),
                            EvPointLightUpdate (frame_context K t cb s),
                            EvWriteToBuffer (currentFrameIndex (lveRenderer s)) (frame_block K t cb s),
                            EvFlush (currentFrameIndex (lveRenderer s)),
                            EvBeginSwapChainRenderPass cb,
                            EvRenderGameObjects (frame_context K t cb s),
                            EvPointLightRender (frame_context K t cb s),
                            EvEndSwapChainRenderPass cb,
                            EvEndFrame]\<rparr>)"
  using assms
  by (simp add: iteration_def beginFrame_def advance_camera_eq log_call_def render_frame_def
      record_cmds_def getFrameIndex_def endFrame_def Let_def frame_context_def frame_block_def)

lemma iteration_out_of_range:
  assumes "begin_result t = ImageAcquired cb"
    and "\<not> (currentFrameIndex (lveRenderer s) < length (globalDescriptorSets s) \<and>
            currentFrameIndex (lveRenderer s) < length (uboBuffers s))"
  shows "iteration K t s = Inl (SlotOutOfRange (currentFrameIndex (lveRenderer s)))"
  using assms
  by (simp add: iteration_def beginFrame_def advance_camera_eq log_call_def render_frame_def
      getFrameIndex_def Let_def)

lemma iteration_lost:
  assumes "begin_result t = DeviceLost"
  shows "iteration K t s = Inl FatalDeviceError"
  using assms by (simp add: iteration_def beginFrame_def split: prod.splits)

lemma slots_ok_init:
  "0 < MAX_FRAMES_IN_FLIGHT K \<Longrightarrow> slots_ok K (run_init K now objs cid)"
  by (simp add: slots_ok_def run_init_def Let_def)

lemma slots_ok_iteration:
  assumes "slots_ok K s" and "iteration K t s = Inr s'"
  shows "slots_ok K s'"
proof (cases "begin_result t")
  case (ImageAcquired cb)
  with assms show ?thesis
    by (auto simp: iteration_acquired slots_ok_def)
next
  case SurfaceUnavailable
  with assms show ?thesis
    by (auto simp: iteration_skipped slots_ok_def)
next
  case DeviceLost
  with assms show ?thesis
    by (simp add: iteration_lost)
qed

lemma slots_ok_frames:
  "slots_ok K s \<Longrightarrow> frames K ts s = Inr s' \<Longrightarrow> slots_ok K s'"
proof (induction ts arbitrary: s)
  case Nil
  then show ?case by simp
next
  case (Cons t ts)
  then show ?case
    by (auto split: sum.splits dest: slots_ok_iteration)
qed

lemma slots_ok_run:
  assumes "0 < MAX_FRAMES_IN_FLIGHT K" and "frames K ts (run_init K now objs cid) = Inr s"
  shows "slots_ok K s"
  using slots_ok_frames [OF slots_ok_init [OF assms(1)] assms(2)] .

lemma frames_snoc:
  "frames K (ts @ [t]) s =
     (case frames K ts s of Inl e \<Rightarrow> Inl e | Inr s' \<Rightarrow> iteration K t s')"
  by (induction ts arbitrary: s) (auto split: sum.splits)

lemma slots_in_range:
  assumes "0 < MAX_FRAMES_IN_FLIGHT K" and "frames K ts (run_init K now objs cid) = Inr s"
  shows "currentFrameIndex (lveRenderer s) < length (globalDescriptorSets s)"
    and "currentFrameIndex (lveRenderer s) < length (uboBuffers s)"
  using slots_ok_run [OF assms] by (simp_all add: slots_ok_def)

lemma iteration_Inr_cases:
  assumes "iteration K t s = Inr s'"
  obtains (skipped) "begin_result t = SurfaceUnavailable"
  | (rendered) cb where "begin_result t = ImageAcquired cb"
      and "currentFrameIndex (lveRenderer s) < length (globalDescriptorSets s)"
      and "currentFrameIndex (lveRenderer s) < length (uboBuffers s)"
proof (cases "begin_result t")
  case (ImageAcquired cb)
  with assms iteration_out_of_range [of t cb s K] rendered show ?thesis
    by fastforce
next
  case SurfaceUnavailable
  then show ?thesis by (rule skipped)
next
  case DeviceLost
  with assms show ?thesis
    by (simp add: iteration_lost)
qed

lemma iteration_advances:
  assumes "iteration K t s = Inr s'"
  shows "viewerObject s' = moved_viewer K t s"
    and "camera s' = updated_camera K t s"
    and "currentTime s' = newTime t"
    and "gameObjects s' = gameObjects s"
    and "globalDescriptorSets s' = globalDescriptorSets s"
    and "take 4 (new_calls s s') =
           [EvPollEvents, EvMoveInPlaneXZ (frame_seconds (currentTime s) (newTime t)), EvSetViewYXZ,
            EvSetPerspectiveProjection (getAspectRatio t)]"
    and "calls s' = calls s @ new_calls s s'"
  using assms
  by (cases rule: iteration_Inr_cases; simp add: iteration_acquired iteration_skipped new_calls_def; fastforce)+

lemma scanLights_eq:
  "length acc \<le> n \<Longrightarrow>
   scanLights n m acc = acc @ take (n - length acc) (light_descriptors m)"
proof (induction m arbitrary: acc)
  case Nil
  then show ?case by (simp add: light_descriptors_def)
next
  case (Cons kv m)
  obtain k obj where kv: "kv = (k, obj)" by (cases kv)
  show ?case
  proof (cases "pointLight obj")
    case None
    with Cons kv show ?thesis
      by (simp add: light_descriptors_def)
  next
    case (Some pl)
    show ?thesis
    proof (cases "length acc < n")
      case True
      then have "n - length acc = Suc (n - Suc (length acc))" by simp
      with Cons.IH [of "acc @ [descriptor obj pl]"] True kv Some show ?thesis
        by (simp add: light_descriptors_def)
    next
      case False
      with Cons kv Some show ?thesis
        by (simp add: light_descriptors_def)
    qed
  qed
qed

lemma frame_block_matrices:
  "projection (frame_block K t cb s) = getProjection K (updated_camera K t s)"
  "view (frame_block K t cb s) = getView K (updated_camera K t s)"
  "inverseView (frame_block K t cb s) = getInverseView K (updated_camera K t s)"
  by (simp_all add: frame_block_def pointLightSystem_update_def Let_def)

lemma frame_block_lights:
  "pointLights (frame_block K t cb s) = take (MAX_LIGHTS K) (light_descriptors (gameObjects s))"
  "numLights (frame_block K t cb s) = length (pointLights (frame_block K t cb s))"
  by (simp_all add: frame_block_def pointLightSystem_update_def Let_def scanLights_eq
      frame_context_def)

lemma demo_start_fields:
  "currentFrameIndex (lveRenderer demo_start) = 0"
  "uboBuffers demo_start = [None, None]"
  "globalDescriptorSets demo_start = [0, 1]"
  "commands demo_start = []"
  "calls demo_start = []"
  "currentTime demo_start = 0"
  "camera demo_start = (1, 0)"
  "gameObjects demo_start = fst demo_scene"
  "vec_z (translation (transform (viewerObject demo_start))) = - 5 / 2"
  by (simp_all add: demo_start_def run_init_def demo_K_def Let_def numeral_2_eq_2)

lemma demo_hyps:
  "0 < MAX_FRAMES_IN_FLIGHT demo_K"
  "frames demo_K [] (run_init demo_K 0 (fst demo_scene) (snd demo_scene)) = Inr demo_start"
  "begin_result demo_frame = ImageAcquired 7"
  "begin_result demo_frame2 = ImageAcquired 8"
  "begin_result demo_skip = SurfaceUnavailable"
  by (simp_all add: demo_K_def demo_start_def demo_frame_def demo_frame2_def demo_skip_def
      demo_tick_def)

lemma demo_scene_lights:
  "light_descriptors (fst demo_scene) = [demo_light, demo_light]"
  by (simp add: demo_scene_def loadSolarLight_def makePointLight_def createGameObject_def
      emplace_def demo_floor_def vec3_splat_def light_descriptors_def descriptor_def
      demo_light_def Let_def)

lemma new_calls_append:
  assumes "calls s1 = calls s0 @ a" and "calls s2 = calls s1 @ b"
  shows "new_calls s0 s2 = a @ b"
  using assms by (simp add: new_calls_def)

lemma new_calls_same [simp]: "new_calls s s = []"
  by (simp add: new_calls_def)

lemma calls_extend:
  "calls s' = calls s @ es \<Longrightarrow> calls s' = calls s @ new_calls s s'"
  by (simp add: new_calls_def)

lemma frames_calls:
  "frames K ts s = Inr s' \<Longrightarrow> calls s' = calls s @ new_calls s s'"
proof (induction ts arbitrary: s)
  case Nil
  then show ?case by auto
next
  case (Cons t ts)
  then obtain s1 where s1: "iteration K t s = Inr s1" and rest: "frames K ts s1 = Inr s'"
    by (auto split: sum.splits)
  from iteration_advances(7) [OF s1] Cons.IH [OF rest]
  have "calls s' = calls s @ (new_calls s s1 @ new_calls s1 s')"
    by simp
  then show ?case
    by (rule calls_extend)
qed

lemma frames_Cons_calls:
  assumes "iteration K t s = Inr s1" and "frames K ts s1 = Inr s'"
  shows "new_calls s s' = new_calls s s1 @ new_calls s1 s'"
  using new_calls_append [OF iteration_advances(7) [OF assms(1)] frames_calls [OF assms(2)]] .

lemma frames_snoc_calls:
  assumes "frames K ts s = Inr s1" and "iteration K t s1 = Inr s'"
  shows "new_calls s s' = new_calls s s1 @ new_calls s1 s'"
  using new_calls_append [OF frames_calls [OF assms(1)] iteration_advances(7) [OF assms(2)]] .

lemma frames_gameObjects:
  "frames K ts s = Inr s' \<Longrightarrow> gameObjects s' = gameObjects s"
proof (induction ts arbitrary: s)
  case Nil
  then show ?case by auto
next
  case (Cons t ts)
  then obtain s1 where s1: "iteration K t s = Inr s1" and rest: "frames K ts s1 = Inr s'"
    by (auto split: sum.splits)
  from iteration_advances(4) [OF s1] Cons.IH [OF rest] show ?case
    by simp
qed

lemma contexts_Nil [simp]: "contexts [] = []"
  by (simp add: contexts_def)

lemma slot_sequence_Nil [simp]: "slot_sequence [] = []"
  by (simp add: slot_sequence_def)

lemma contexts_append [simp]: "contexts (xs @ ys) = contexts xs @ contexts ys"
  by (simp add: contexts_def)

lemma slot_sequence_append [simp]: "slot_sequence (xs @ ys) = slot_sequence xs @ slot_sequence ys"
  by (simp add: slot_sequence_def)

lemma iteration_contexts:
  assumes "iteration K t s = Inr s'"
  shows "map fi_gameObjects (contexts (new_calls s s')) =
           replicate (length (contexts (new_calls s s'))) (gameObjects s)"
    and "map frameTime (contexts (new_calls s s')) =
           replicate (length (contexts (new_calls s s'))) (frame_seconds (currentTime s) (newTime t))"
    and "length (contexts (new_calls s s')) = (if is_acquired (begin_result t) then 3 else 0)"
  using assms
  by (cases rule: iteration_Inr_cases;
      simp add: iteration_acquired iteration_skipped new_calls_def contexts_def frame_context_def;
      fastforce)+

lemma iteration_total:
  assumes "slots_ok K s" and "not_lost (begin_result t)"
  shows "\<exists>s'. iteration K t s = Inr s'"
proof (cases "begin_result t")
  case (ImageAcquired cb)
  with assms(1) show ?thesis
    by (simp add: iteration_acquired slots_ok_def)
next
  case SurfaceUnavailable
  then show ?thesis
    by (simp add: iteration_skipped)
next
  case DeviceLost
  with assms(2) show ?thesis by simp
qed

lemma frames_total:
  "slots_ok K s \<Longrightarrow> list_all (\<lambda>t. not_lost (begin_result t)) ts \<Longrightarrow> \<exists>s'. frames K ts s = Inr s'"
proof (induction ts arbitrary: s)
  case Nil
  then show ?case by simp
next
  case (Cons t ts)
  then obtain s1 where s1: "iteration K t s = Inr s1"
    using iteration_total [of K s t] by auto
  from Cons.IH [OF slots_ok_iteration [OF Cons.prems(1) s1]] Cons.prems(2) s1 show ?case
    by simp
qed

lemma frames_contexts_length:
  "frames K ts s = Inr s' \<Longrightarrow> length (contexts (new_calls s s')) = 3 * acquired_count ts"
proof (induction ts arbitrary: s)
  case Nil
  then show ?case by (auto simp: acquired_count_def)
next
  case (Cons t ts)
  then obtain s1 where s1: "iteration K t s = Inr s1" and rest: "frames K ts s1 = Inr s'"
    by (auto split: sum.splits)
  from Cons.IH [OF rest] iteration_contexts(3) [OF s1] show ?case
    by (simp add: frames_Cons_calls [OF s1 rest] acquired_count_def)
qed

lemma emplace_all_fresh:
  "distinct (map getId objs) \<Longrightarrow> getId ` set objs \<inter> fst ` set m = {} \<Longrightarrow>
   emplace_all objs m = m @ map (\<lambda>obj. (getId obj, obj)) objs"
proof (induction objs arbitrary: m)
  case Nil
  then show ?case by simp
next
  case (Cons obj objs)
  have fresh: "getId obj \<notin> fst ` set m"
    using Cons.prems(2) by auto
  have "getId ` set objs \<inter> fst ` set (m @ [(getId obj, obj)]) = {}"
    using Cons.prems by auto
  with Cons.IH [of "m @ [(getId obj, obj)]"] Cons.prems(1) fresh show ?case
    by (simp add: emplace_def)
qed

lemma demo_slots_ok: "slots_ok demo_K demo_start"
  unfolding demo_start_def by (rule slots_ok_init) (simp add: demo_K_def)

lemma iteration_slots:
  assumes "iteration K t s = Inr s'"
  shows "slot_sequence (new_calls s s') =
           (if is_acquired (begin_result t) then [currentFrameIndex (lveRenderer s)] else [])"
    and "currentFrameIndex (lveRenderer s') =
           (if is_acquired (begin_result t)
            then (currentFrameIndex (lveRenderer s) + 1) mod MAX_FRAMES_IN_FLIGHT K
            else currentFrameIndex (lveRenderer s))"
    and "concat (map delta_of (new_calls s s')) =
           (if is_acquired (begin_result t) then [frame_seconds (currentTime s) (newTime t)] else [])"
  using assms
  by (cases rule: iteration_Inr_cases;
      simp add: iteration_acquired iteration_skipped new_calls_def slot_sequence_def frame_context_def;
      fastforce)+

lemma slot_sequence_frames:
  assumes "slots_ok K s0"
  shows "frames K ts s0 = Inr s \<Longrightarrow>
     slot_sequence (new_calls s0 s) =
       map (\<lambda>F. (currentFrameIndex (lveRenderer s0) + F) mod MAX_FRAMES_IN_FLIGHT K)
         [0 ..< acquired_count ts] \<and>
     currentFrameIndex (lveRenderer s) =
       (currentFrameIndex (lveRenderer s0) + acquired_count ts) mod MAX_FRAMES_IN_FLIGHT K"
proof (induction ts arbitrary: s rule: rev_induct)
  case Nil
  with assms show ?case
    by (auto simp: acquired_count_def slots_ok_def)
next
  case (snoc t ts)
  then obtain s1 where s1: "frames K ts s0 = Inr s1" and it: "iteration K t s1 = Inr s"
    by (auto simp: frames_snoc split: sum.splits)
  note ih = snoc.IH [OF s1]
  have split: "new_calls s0 s = new_calls s0 s1 @ new_calls s1 s"
    by (rule frames_snoc_calls [OF s1 it])
  show ?case
  proof (cases "is_acquired (begin_result t)")
    case True
    then have c: "acquired_count (ts @ [t]) = Suc (acquired_count ts)"
      by (simp add: acquired_count_def)
    from ih iteration_slots(1,2) [OF it] True show ?thesis
      by (simp add: split c mod_Suc_eq)
  next
    case False
    then have c: "acquired_count (ts @ [t]) = acquired_count ts"
      by (simp add: acquired_count_def)
    from ih iteration_slots(1,2) [OF it] False show ?thesis
      by (simp add: split c)
  qed
qed

lemma mod_covers:
  assumes "0 < (n::nat)" and "n \<le> c"
  shows "set (map (\<lambda>F. F mod n) [0 ..< c]) = {0 ..< n}"
proof (intro equalityI subsetI)
  fix v assume "v \<in> set (map (\<lambda>F. F mod n) [0 ..< c])"
  with assms(1) show "v \<in> {0 ..< n}" by auto
next
  fix v assume "v \<in> {0 ..< n}"
  then have "v < c" and "v mod n = v" using assms(2) by auto
  then have "v \<in> (\<lambda>F. F mod n) ` {0 ..< c}"
    by (metis atLeastLessThan_iff image_eqI zero_le)
  then show "v \<in> set (map (\<lambda>F. F mod n) [0 ..< c])" by simp
qed

lemma frames_deltas:
  "frames K ts s = Inr s' \<Longrightarrow>
   concat (map delta_of (new_calls s s')) = clock_deltas (currentTime s) ts"
proof (induction ts arbitrary: s)
  case Nil
  then show ?case by auto
next
  case (Cons t ts)
  then obtain s1 where s1: "iteration K t s = Inr s1" and rest: "frames K ts s1 = Inr s'"
    by (auto split: sum.splits)
  from Cons.IH [OF rest] iteration_slots(3) [OF s1] iteration_advances(3) [OF s1] show ?case
    by (simp add: frames_Cons_calls [OF s1 rest])
qed

lemma demo_frame_deltas:
  assumes "list_all (\<lambda>t. not_lost (begin_result t)) ts"
  shows "frame_deltas (frames demo_K ts demo_start) = clock_deltas 0 ts"
proof -
  from frames_total [OF demo_slots_ok assms]
  obtain s where s: "frames demo_K ts demo_start = Inr s"
    by blast
  have "calls s = new_calls demo_start s"
    using frames_calls [OF s] by (simp add: demo_start_fields)
  with frames_deltas [OF s] s show ?thesis
    by (simp add: frame_deltas_def demo_start_fields)
qed

lemma map_replicateD:
  "map f xs = replicate n d \<Longrightarrow> x \<in> set xs \<Longrightarrow> f x = d"
  by (metis in_set_replicate image_eqI set_map)

section \<open>The loop as a whole\<close>

text \<open>
  The loop returns at the first tick that asks to close, after the passes for the ticks
  before it and the final wait for the device; as long as no tick asks to close it is still
  running.
\<close>

lemma run_loop_returns:
  assumes "list_all (\<lambda>t. \<not> shouldClose t) pre" and "shouldClose t"
    and "frames K pre s = Inr s'"
  shows "run_loop K (pre @ t # rest) s = Some (Inr (log_call EvWaitIdle s'))"
  using assms
proof (induction pre arbitrary: s)
  case Nil
  then show ?case by simp
next
  case (Cons u pre)
  then show ?case
    by (auto split: sum.splits)
qed

lemma run_loop_running:
  assumes "list_all (\<lambda>t. \<not> shouldClose t) ts" and "frames K ts s = Inr s'"
  shows "run_loop K ts s = None"
  using assms
proof (induction ts arbitrary: s)
  case Nil
  then show ?case by simp
next
  case (Cons u ts)
  then show ?case
    by (auto split: sum.splits)
qed

lemma run_loop_fatal:
  assumes "list_all (\<lambda>t. \<not> shouldClose t) ts" and "frames K ts s = Inl e"
  shows "run_loop K (ts @ rest) s = Some (Inl e)"
  using assms
proof (induction ts arbitrary: s)
  case Nil
  then show ?case by simp
next
  case (Cons u ts)
  then show ?case
    by (auto split: sum.splits)
qed

section \<open>Order of the subsystems' render phases\<close>

text \<open>
  C1. In every frame of a run in which \<open>beginFrame\<close> yields a command buffer, the loop body
  completes and calls exactly two render phases: \<open>simpleRenderSystem.renderGameObjects\<close>
  first and \<open>pointLightSystem.render\<close> second, both with this frame's Frame Context.
  The frame is any one begun after any number of earlier passes of a run, so the order is
  the same in all of them.
\<close>

theorem render_order:
  assumes "0 < MAX_FRAMES_IN_FLIGHT K"
    and "frames K ts (run_init K now objs cid) = Inr s"
    and "begin_result t = ImageAcquired cb"
  shows "\<exists>s'. iteration K t s = Inr s' \<and>
           filter is_render (new_calls s s') =
             [EvRenderGameObjects (frame_context K t cb s), EvPointLightRender (frame_context K t cb s)] \<and>
           before (EvRenderGameObjects (frame_context K t cb s))
                  (EvPointLightRender (frame_context K t cb s)) (new_calls s s')"
proof -
  have "slots_ok K s"
    using assms(1,2) by (rule slots_ok_run)
  then have "currentFrameIndex (lveRenderer s) < length (globalDescriptorSets s)"
    and "currentFrameIndex (lveRenderer s) < length (uboBuffers s)"
    by (simp_all add: slots_ok_def)
  from iteration_acquired [OF assms(3) this] show ?thesis
    by (simp add: new_calls_def)
qed

theorem render_order_witness:
  "\<exists>s'. iteration demo_K demo_frame demo_start = Inr s' \<and>
     filter is_render (new_calls demo_start s') =
       [EvRenderGameObjects (frame_context demo_K demo_frame 7 demo_start),
        EvPointLightRender (frame_context demo_K demo_frame 7 demo_start)] \<and>
     before (EvRenderGameObjects (frame_context demo_K demo_frame 7 demo_start))
            (EvPointLightRender (frame_context demo_K demo_frame 7 demo_start))
            (new_calls demo_start s')"
  using render_order [of demo_K "[]" 0 "fst demo_scene" "snd demo_scene" demo_start demo_frame 7]
  by (simp add: demo_K_def demo_tick_def demo_frame_def demo_start_def)

section \<open>Upload of the Shared State Block\<close>

text \<open>
  C2. In every rendered frame of a run the block is written to a buffer exactly once, to the
  buffer of the frame's slot; the one update phase (the point-light subsystem's) comes
  before that write, the write before \<open>beginSwapChainRenderPass\<close>, and both render phases
  after it. When the frame ends the slot holds exactly the block that was written and the
  other slots are as they were, so nothing changed it during the render phase.
\<close>

theorem block_written_once:
  assumes "0 < MAX_FRAMES_IN_FLIGHT K"
    and "frames K ts (run_init K now objs cid) = Inr s"
    and "begin_result t = ImageAcquired cb"
  shows "\<exists>s'. iteration K t s = Inr s' \<and>
           filter is_write (new_calls s s') =
             [EvWriteToBuffer (currentFrameIndex (lveRenderer s)) (frame_block K t cb s)] \<and>
           filter is_update (new_calls s s') = [EvPointLightUpdate (frame_context K t cb s)] \<and>
           before (EvPointLightUpdate (frame_context K t cb s))
                  (EvWriteToBuffer (currentFrameIndex (lveRenderer s)) (frame_block K t cb s))
                  (new_calls s s') \<and>
           before (EvWriteToBuffer (currentFrameIndex (lveRenderer s)) (frame_block K t cb s))
                  (EvBeginSwapChainRenderPass cb) (new_calls s s') \<and>
           before (EvBeginSwapChainRenderPass cb)
                  (EvRenderGameObjects (frame_context K t cb s)) (new_calls s s') \<and>
           before (EvBeginSwapChainRenderPass cb)
                  (EvPointLightRender (frame_context K t cb s)) (new_calls s s') \<and>
           uboBuffers s' =
             (uboBuffers s)[currentFrameIndex (lveRenderer s) := Some (frame_block K t cb s)]"
  using iteration_acquired [OF assms(3) slots_in_range [OF assms(1,2)]]
  by (simp add: new_calls_def)

theorem block_written_once_witness:
  "\<exists>s'. iteration demo_K demo_frame demo_start = Inr s' \<and>
           filter is_write (new_calls demo_start s') =
             [EvWriteToBuffer 0 (frame_block demo_K demo_frame 7 demo_start)] \<and>
           filter is_update (new_calls demo_start s') =
             [EvPointLightUpdate (frame_context demo_K demo_frame 7 demo_start)] \<and>
           before (EvPointLightUpdate (frame_context demo_K demo_frame 7 demo_start))
                  (EvWriteToBuffer 0 (frame_block demo_K demo_frame 7 demo_start))
                  (new_calls demo_start s') \<and>
           before (EvWriteToBuffer 0 (frame_block demo_K demo_frame 7 demo_start))
                  (EvBeginSwapChainRenderPass 7) (new_calls demo_start s') \<and>
           before (EvBeginSwapChainRenderPass 7)
                  (EvRenderGameObjects (frame_context demo_K demo_frame 7 demo_start))
                  (new_calls demo_start s') \<and>
           before (EvBeginSwapChainRenderPass 7)
                  (EvPointLightRender (frame_context demo_K demo_frame 7 demo_start))
                  (new_calls demo_start s') \<and>
           uboBuffers s' = [Some (frame_block demo_K demo_frame 7 demo_start), None]"
proof -
  have n: "0 < MAX_FRAMES_IN_FLIGHT demo_K"
    by (simp add: demo_K_def)
  have f: "frames demo_K [] (run_init demo_K 0 (fst demo_scene) (snd demo_scene)) = Inr demo_start"
    by (simp add: demo_start_def)
  have a: "begin_result demo_frame = ImageAcquired 7"
    by (simp add: demo_frame_def demo_tick_def)
  have b: "uboBuffers demo_start = [None, None]" "currentFrameIndex (lveRenderer demo_start) = 0"
    by (simp_all add: demo_start_def run_init_def demo_K_def Let_def numeral_2_eq_2)
  from block_written_once [OF n f a] show ?thesis
    by (simp add: b)
qed

section \<open>A frame that could not be begun\<close>



section \<open>Viewer and camera on every pass\<close>

text \<open>
  C10. On every pass through the loop that ends normally, rendered or skipped, the first four
  calls are the event poll, \<open>moveInPlaneXZ\<close> with this pass's frame time, \<open>setViewYXZ\<close>
  and \<open>setPerspectiveProjection\<close> with this pass's aspect ratio, and the viewer and camera
  of the next pass are the moved ones. On a skipped pass this happens although no subsystem
  runs and no block is written.
\<close>

theorem camera_advances_every_pass:
  assumes "iteration K t s = Inr s'"
  shows "viewerObject s' = moved_viewer K t s \<and>
         camera s' = updated_camera K t s \<and>
         currentTime s' = newTime t \<and>
         take 4 (new_calls s s') =
           [EvPollEvents, EvMoveInPlaneXZ (frame_seconds (currentTime s) (newTime t)), EvSetViewYXZ,
            EvSetPerspectiveProjection (getAspectRatio t)] \<and>
         (begin_result t = SurfaceUnavailable \<longrightarrow>
            contexts (new_calls s s') = [] \<and>
            filter is_write (new_calls s s') = [] \<and>
            uboBuffers s' = uboBuffers s)"
proof (cases "begin_result t")
  case (ImageAcquired cb)
  show ?thesis
  proof (cases "currentFrameIndex (lveRenderer s) < length (globalDescriptorSets s) \<and>
                currentFrameIndex (lveRenderer s) < length (uboBuffers s)")
    case True
    with assms ImageAcquired show ?thesis
      by (auto simp: iteration_acquired new_calls_def)
  next
    case False
    with assms ImageAcquired show ?thesis
      by (simp add: iteration_out_of_range)
  qed
next
  case SurfaceUnavailable
  with assms show ?thesis
    by (auto simp: iteration_skipped new_calls_def contexts_def)
next
  case DeviceLost
  with assms show ?thesis
    by (simp add: iteration_lost)
qed


theorem camera_advances_every_pass_witness:
  "\<exists>s1 s2. iteration demo_K demo_skip demo_start = Inr s1 \<and>
     iteration demo_K demo_skip2 s1 = Inr s2 \<and>
     vec_z (translation (transform (viewerObject demo_start))) = - 5 / 2 \<and>
     vec_z (translation (transform (viewerObject s1))) = - 3 / 2 \<and>
     vec_z (translation (transform (viewerObject s2))) = 1 / 2 \<and>
     camera demo_start = (1, 0) \<and> camera s1 = (16 / 9, - 3 / 2) \<and> camera s2 = (4 / 3, 1 / 2) \<and>
     contexts (new_calls demo_start s1) = [] \<and> contexts (new_calls s1 s2) = [] \<and>
     uboBuffers s2 = [None, None]"
proof -
  have a: "begin_result demo_skip = SurfaceUnavailable"
    "begin_result demo_skip2 = SurfaceUnavailable"
    by (simp_all add: demo_skip_def demo_skip2_def demo_tick_def demo_seconds)
  obtain s1 where s1: "iteration demo_K demo_skip demo_start = Inr s1"
    using iteration_skipped [OF a(1)] by blast
  obtain s2 where s2: "iteration demo_K demo_skip2 s1 = Inr s2"
    using iteration_skipped [OF a(2)] by blast
  have start: "vec_z (translation (transform (viewerObject demo_start))) = - 5 / 2"
    "camera demo_start = (1, 0)" "currentTime demo_start = 0"
    "uboBuffers demo_start = [None, None]"
    by (simp_all add: demo_start_def run_init_def demo_K_def Let_def numeral_2_eq_2)
  note p1 = camera_advances_every_pass [OF s1]
  have v1: "vec_z (translation (transform (viewerObject s1))) = - 3 / 2"
    using p1 start by (simp add: moved_viewer_def demo_K_def demo_skip_def demo_skip2_def demo_tick_def demo_seconds)
  have c1: "camera s1 = (16 / 9, - 3 / 2)"
    using p1 start by (simp add: updated_camera_def moved_viewer_def demo_K_def demo_skip_def demo_skip2_def demo_tick_def demo_seconds)
  note p2 = camera_advances_every_pass [OF s2]
  have v2: "vec_z (translation (transform (viewerObject s2))) = 1 / 2"
    using p2 p1 v1 by (simp add: moved_viewer_def demo_K_def demo_skip_def demo_skip2_def demo_tick_def demo_seconds)
  have c2: "camera s2 = (4 / 3, 1 / 2)"
    using p2 p1 v1 c1 by (simp add: updated_camera_def moved_viewer_def demo_K_def demo_skip_def demo_skip2_def demo_tick_def demo_seconds)
  have q: "contexts (new_calls demo_start s1) = []" "contexts (new_calls s1 s2) = []"
    "uboBuffers s2 = [None, None]"
    using p1 p2 a start by simp_all
  show ?thesis
    using s1 s2 start v1 c1 v2 c2 q by simp
qed

section \<open>Contents of the uploaded block\<close>

text \<open>
  C6. In every rendered frame of a run, the projection, view and inverse-view matrices of the
  block written to the frame's slot are those of the camera as this pass through the loop
  set it, from this tick's input, frame time and aspect ratio; that camera is also the one
  the loop carries into the next pass.
\<close>

theorem block_holds_this_frames_camera:
  assumes "0 < MAX_FRAMES_IN_FLIGHT K"
    and "frames K ts (run_init K now objs cid) = Inr s"
    and "begin_result t = ImageAcquired cb"
  shows "\<exists>s' blk. iteration K t s = Inr s' \<and>
           filter is_write (new_calls s s') = [EvWriteToBuffer (currentFrameIndex (lveRenderer s)) blk] \<and>
           uboBuffers s' ! currentFrameIndex (lveRenderer s) = Some blk \<and>
           camera s' = updated_camera K t s \<and>
           projection blk = getProjection K (updated_camera K t s) \<and>
           view blk = getView K (updated_camera K t s) \<and>
           inverseView blk = getInverseView K (updated_camera K t s)"
  using iteration_acquired [OF assms(3) slots_in_range [OF assms(1,2)]]
    slots_in_range(2) [OF assms(1,2)]
  by (simp add: new_calls_def frame_block_matrices)

theorem block_holds_this_frames_camera_witness:
  "\<exists>s1 s2 b1 b2.
     iteration demo_K demo_frame demo_start = Inr s1 \<and>
     iteration demo_K demo_frame2 s1 = Inr s2 \<and>
     uboBuffers s1 ! 0 = Some b1 \<and> uboBuffers s2 ! 1 = Some b2 \<and>
     camera s1 = (16 / 9, - 3 / 2) \<and> camera s2 = (4 / 3, 1 / 2) \<and>
     projection b1 = 16 / 9 \<and> view b1 = - 3 / 2 \<and> inverseView b1 = 3 / 2 \<and>
     projection b2 = 4 / 3 \<and> view b2 = 1 / 2 \<and> inverseView b2 = - 1 / 2"
proof -
  from block_holds_this_frames_camera [OF demo_hyps(1,2,3)]
  obtain s1 b1 where s1: "iteration demo_K demo_frame demo_start = Inr s1"
    and b1: "uboBuffers s1 ! 0 = Some b1"
      "projection b1 = getProjection demo_K (updated_camera demo_K demo_frame demo_start)"
      "view b1 = getView demo_K (updated_camera demo_K demo_frame demo_start)"
      "inverseView b1 = getInverseView demo_K (updated_camera demo_K demo_frame demo_start)"
    by (auto simp: demo_start_fields)
  have f1: "frames demo_K [demo_frame] (run_init demo_K 0 (fst demo_scene) (snd demo_scene)) = Inr s1"
    using s1 by (simp add: demo_start_def)
  have i1: "currentFrameIndex (lveRenderer s1) = 1"
    using s1 iteration_acquired [OF demo_hyps(3), of demo_start demo_K]
    by (auto simp: demo_start_fields demo_K_def)
  from block_holds_this_frames_camera [OF demo_hyps(1) f1 demo_hyps(4)]
  obtain s2 b2 where s2: "iteration demo_K demo_frame2 s1 = Inr s2"
    and b2: "uboBuffers s2 ! 1 = Some b2"
      "projection b2 = getProjection demo_K (updated_camera demo_K demo_frame2 s1)"
      "view b2 = getView demo_K (updated_camera demo_K demo_frame2 s1)"
      "inverseView b2 = getInverseView demo_K (updated_camera demo_K demo_frame2 s1)"
    by (auto simp: i1)
  have v1: "vec_z (translation (transform (viewerObject s1))) = - 3 / 2"
    "currentTime s1 = 1000000000"
    using iteration_advances(1,3) [OF s1]
    by (simp_all add: moved_viewer_def demo_K_def demo_frame_def demo_tick_def demo_seconds demo_start_fields)
  have c1: "updated_camera demo_K demo_frame demo_start = (16 / 9, - 3 / 2)"
    by (simp add: updated_camera_def moved_viewer_def demo_K_def demo_frame_def demo_tick_def demo_seconds
        demo_start_fields)
  have c2: "updated_camera demo_K demo_frame2 s1 = (4 / 3, 1 / 2)"
    by (simp add: updated_camera_def moved_viewer_def demo_K_def demo_frame2_def demo_tick_def demo_seconds v1)
  have g: "getProjection demo_K = fst" "getView demo_K = snd" "getInverseView demo_K = (\<lambda>c. - snd c)"
    by (simp_all add: demo_K_def)
  show ?thesis
    using s1 s2 b1 b2 iteration_advances(2) [OF s1] iteration_advances(2) [OF s2]
    by (simp add: c1 c2 g)
qed

text \<open>
  C5. In every rendered frame of a run there is exactly one update call, the point-light
  subsystem's, and it is given the registry of the loop. The block that reaches the slot
  carries the descriptors of the light-carrying entities in registry order, cut to the
  first \<open>MAX_LIGHTS\<close>: their count is the smaller of \<open>MAX_LIGHTS\<close> and the number of
  lights, never more than \<open>MAX_LIGHTS\<close>, and a registry with more lights is no error.
\<close>

theorem lights_written_by_update:
  assumes "0 < MAX_FRAMES_IN_FLIGHT K"
    and "frames K ts (run_init K now objs cid) = Inr s"
    and "begin_result t = ImageAcquired cb"
  shows "\<exists>s' blk. iteration K t s = Inr s' \<and>
           filter is_update (new_calls s s') = [EvPointLightUpdate (frame_context K t cb s)] \<and>
           fi_gameObjects (frame_context K t cb s) = gameObjects s \<and>
           filter is_write (new_calls s s') = [EvWriteToBuffer (currentFrameIndex (lveRenderer s)) blk] \<and>
           uboBuffers s' ! currentFrameIndex (lveRenderer s) = Some blk \<and>
           pointLights blk = take (MAX_LIGHTS K) (light_descriptors (gameObjects s)) \<and>
           numLights blk = min (MAX_LIGHTS K) (length (light_descriptors (gameObjects s))) \<and>
           numLights blk \<le> MAX_LIGHTS K"
  using iteration_acquired [OF assms(3) slots_in_range [OF assms(1,2)]]
    slots_in_range(2) [OF assms(1,2)]
  by (simp add: new_calls_def frame_block_lights frame_context_def min.commute)

theorem lights_written_by_update_witness:
  "\<exists>s' blk. iteration demo_K demo_frame demo_start = Inr s' \<and>
     filter is_update (new_calls demo_start s') =
       [EvPointLightUpdate (frame_context demo_K demo_frame 7 demo_start)] \<and>
     uboBuffers s' ! 0 = Some blk \<and>
     length (light_descriptors (gameObjects demo_start)) = 2 \<and>
     MAX_LIGHTS demo_K = 1 \<and>
     pointLights blk = [demo_light] \<and>
     numLights blk = 1"
proof -
  have m: "MAX_LIGHTS demo_K = 1"
    by (simp add: demo_K_def)
  from lights_written_by_update [OF demo_hyps(1,2,3)] show ?thesis
    by (auto simp: demo_start_fields demo_scene_lights m)
qed

section \<open>The Scene Registry during the loop\<close>

text \<open>
  C8. A registry filled by inserting entities with distinct identifiers is iterated in the
  order of insertion, and in every rendered frame of a run on it each of the three subsystem
  calls is handed a registry that iterates in that one order; the draw commands they record
  follow it.
\<close>

theorem registry_iteration_order:
  assumes "distinct (map getId objs)"
    and "0 < MAX_FRAMES_IN_FLIGHT K"
    and "frames K ts (run_init K now (emplace_all objs []) cid) = Inr s"
    and "begin_result t = ImageAcquired cb"
  shows "iterate_registry (emplace_all objs []) = objs \<and>
         (\<exists>s'. iteration K t s = Inr s' \<and>
            map (\<lambda>fi. iterate_registry (fi_gameObjects fi)) (contexts (new_calls s s')) =
              [objs, objs, objs] \<and>
            commands s' = commands s @ [BeginRenderPass]
              @ map (\<lambda>obj. DrawMesh (getId obj)) (filter (\<lambda>obj. model obj \<noteq> None) objs)
              @ map (\<lambda>obj. DrawLight (getId obj)) (filter (\<lambda>obj. pointLight obj \<noteq> None) objs)
              @ [EndRenderPass])"
proof -
  have reg: "emplace_all objs [] = map (\<lambda>obj. (getId obj, obj)) objs"
    using emplace_all_fresh [OF assms(1), of "[]"] by simp
  have order: "iterate_registry (emplace_all objs []) = objs"
    by (simp add: reg iterate_registry_def comp_def)
  have g: "gameObjects s = emplace_all objs []"
    using frames_gameObjects [OF assms(3)] by (simp add: run_init_def Let_def)
  from iteration_acquired [OF assms(4) slots_in_range [OF assms(2,3)]]
  obtain s' where it: "iteration K t s = Inr s'"
    and cmds: "commands s' = commands s @ [BeginRenderPass]
        @ renderGameObjects (frame_context K t cb s)
        @ pointLightSystem_render (frame_context K t cb s) @ [EndRenderPass]"
    by simp
  have "map fi_gameObjects (contexts (new_calls s s')) = replicate 3 (gameObjects s)"
    using iteration_contexts(1,3) [OF it] assms(4) by simp
  then have "map iterate_registry (map fi_gameObjects (contexts (new_calls s s'))) =
               [objs, objs, objs]"
    using g order by (simp add: numeral_3_eq_3)
  then have seen: "map (\<lambda>fi. iterate_registry (fi_gameObjects fi)) (contexts (new_calls s s')) =
               [objs, objs, objs]"
    by (simp add: comp_def)
  have meshes: "renderGameObjects (frame_context K t cb s) =
      map (\<lambda>obj. DrawMesh (getId obj)) (filter (\<lambda>obj. model obj \<noteq> None) objs)"
    by (simp add: renderGameObjects_def frame_context_def g reg filter_map comp_def)
  have lights: "pointLightSystem_render (frame_context K t cb s) =
      map (\<lambda>obj. DrawLight (getId obj)) (filter (\<lambda>obj. pointLight obj \<noteq> None) objs)"
    by (simp add: pointLightSystem_render_def frame_context_def g reg filter_map comp_def)
  from order it seen cmds show ?thesis
    by (simp add: meshes lights)
qed

theorem registry_iteration_order_witness:
  "iterate_registry (emplace_all demo_objs []) = demo_objs \<and>
   (\<exists>s'. iteration demo_K demo_frame (run_init demo_K 0 (emplace_all demo_objs []) 3) = Inr s' \<and>
      map (\<lambda>fi. iterate_registry (fi_gameObjects fi))
          (contexts (new_calls (run_init demo_K 0 (emplace_all demo_objs []) 3) s')) =
        [demo_objs, demo_objs, demo_objs] \<and>
      commands s' = [BeginRenderPass, DrawMesh 0, DrawLight 1, DrawLight 2, EndRenderPass])"
proof -
  have d: "distinct (map getId demo_objs)"
    by (simp add: demo_objs_def demo_floor_def makePointLight_def createGameObject_def)
  have f: "frames demo_K [] (run_init demo_K 0 (emplace_all demo_objs []) 3) =
             Inr (run_init demo_K 0 (emplace_all demo_objs []) 3)"
    by simp
  have c: "commands (run_init demo_K 0 (emplace_all demo_objs []) 3) = []"
    by (simp add: run_init_def Let_def)
  have m: "map (\<lambda>obj. DrawMesh (getId obj)) (filter (\<lambda>obj. model obj \<noteq> None) demo_objs) = [DrawMesh 0]"
    "map (\<lambda>obj. DrawLight (getId obj)) (filter (\<lambda>obj. pointLight obj \<noteq> None) demo_objs) =
       [DrawLight 1, DrawLight 2]"
    by (simp_all add: demo_objs_def demo_floor_def makePointLight_def createGameObject_def)
  note r = registry_iteration_order [OF d demo_hyps(1) f demo_hyps(3), unfolded m c]
  from r show ?thesis
    by simp
qed

section \<open>The ring of frame slots\<close>

text \<open>
  C3. After any number of passes of a run, the slot indices that \<open>getFrameIndex\<close> returned to
  the successfully begun frames are \<open>F mod N\<close> for \<open>F = 0, 1, ...\<close> in this order, where \<open>N\<close> is
  \<open>MAX_FRAMES_IN_FLIGHT\<close>; skipped passes do not advance the index. The sequence repeats
  with period \<open>N\<close>, takes every value below \<open>N\<close> once \<open>N\<close> frames were begun, and for
  \<open>N = 2\<close> and five frames it is \<open>[0, 1, 0, 1, 0]\<close>.
\<close>

theorem slot_index_cycles:
  assumes "0 < MAX_FRAMES_IN_FLIGHT K"
    and "frames K ts (run_init K now objs cid) = Inr s"
  shows "slot_sequence (calls s) = map (\<lambda>F. F mod MAX_FRAMES_IN_FLIGHT K) [0 ..< acquired_count ts] \<and>
         (\<forall>F. F + MAX_FRAMES_IN_FLIGHT K < acquired_count ts \<longrightarrow>
            slot_sequence (calls s) ! (F + MAX_FRAMES_IN_FLIGHT K) = slot_sequence (calls s) ! F) \<and>
         (MAX_FRAMES_IN_FLIGHT K \<le> acquired_count ts \<longrightarrow>
            set (slot_sequence (calls s)) = {0 ..< MAX_FRAMES_IN_FLIGHT K}) \<and>
         (MAX_FRAMES_IN_FLIGHT K = 2 \<and> acquired_count ts = 5 \<longrightarrow>
            slot_sequence (calls s) = [0, 1, 0, 1, 0])"
proof -
  let ?N = "MAX_FRAMES_IN_FLIGHT K"
  have init: "currentFrameIndex (lveRenderer (run_init K now objs cid)) = 0"
    "calls (run_init K now objs cid) = []"
    by (simp_all add: run_init_def Let_def)
  have "calls s = new_calls (run_init K now objs cid) s"
    using frames_calls [OF assms(2)] by (simp add: init)
  with slot_sequence_frames [OF slots_ok_init [OF assms(1)] assms(2)]
  have seq: "slot_sequence (calls s) = map (\<lambda>F. F mod ?N) [0 ..< acquired_count ts]"
    by (simp add: init)
  have period: "\<forall>F. F + ?N < acquired_count ts \<longrightarrow>
      slot_sequence (calls s) ! (F + ?N) = slot_sequence (calls s) ! F"
    by (simp add: seq)
  have cover: "?N \<le> acquired_count ts \<longrightarrow> set (slot_sequence (calls s)) = {0 ..< ?N}"
    using mod_covers [OF assms(1)] by (simp add: seq)
  have five: "?N = 2 \<and> acquired_count ts = 5 \<longrightarrow> slot_sequence (calls s) = [0, 1, 0, 1, 0]"
    by (simp add: seq upt_rec)
  from seq period cover five show ?thesis
    by blast
qed

theorem slot_index_cycles_witness:
  "\<exists>s. frames demo_K demo_five (run_init demo_K 0 (fst demo_scene) (snd demo_scene)) = Inr s \<and>
     acquired_count demo_five = 5 \<and> MAX_FRAMES_IN_FLIGHT demo_K = 2 \<and>
     slot_sequence (calls s) = [0, 1, 0, 1, 0] \<and>
     set (slot_sequence (calls s)) = {0 ..< 2}"
proof -
  have "list_all (\<lambda>t. not_lost (begin_result t)) demo_five"
    by (simp add: demo_five_def demo_hyps)
  from frames_total [OF demo_slots_ok this]
  obtain s where s: "frames demo_K demo_five (run_init demo_K 0 (fst demo_scene) (snd demo_scene)) = Inr s"
    unfolding demo_start_def by blast
  have c: "acquired_count demo_five = 5" "MAX_FRAMES_IN_FLIGHT demo_K = 2"
    by (simp_all add: acquired_count_def demo_five_def demo_hyps demo_K_def)
  have le: "MAX_FRAMES_IN_FLIGHT demo_K \<le> acquired_count demo_five"
    by (simp add: c)
  note r = slot_index_cycles [OF demo_hyps(1) s]
  have five: "slot_sequence (calls s) = [0, 1, 0, 1, 0]"
    using r c by blast
  have "set (slot_sequence (calls s)) = {0 ..< MAX_FRAMES_IN_FLIGHT demo_K}"
    using r le by blast
  then have cover: "set (slot_sequence (calls s)) = {0 ..< 2}"
    by (simp only: c)
  from s c five cover show ?thesis
    by blast
qed


section \<open>Frame time\<close>

text \<open>
  C9, as stated, fails: the second frame of a run is handed the frame time 0 when the clock
  returned the same reading twice, and a negative frame time when the second reading is the
  smaller one. Both runs begin two frames; the clock readings, in nanoseconds after the
  reading taken before the loop, are 1000000000, 1000000000 and 3000000000, 1000000000.
\<close>

theorem frame_time_zero_or_negative_after_first_frame:
  "frame_deltas (frames demo_K [demo_frame, demo_frame] demo_start) = [1, 0] \<and>
   frame_deltas (frames demo_K [demo_frame2, demo_frame] demo_start) = [3, - 2]"
proof -
  have a: "list_all (\<lambda>t. not_lost (begin_result t)) [demo_frame, demo_frame]"
    and b: "list_all (\<lambda>t. not_lost (begin_result t)) [demo_frame2, demo_frame]"
    by (simp_all add: demo_hyps)
  have c: "clock_deltas 0 [demo_frame, demo_frame] = [1, 0]"
    and d: "clock_deltas 0 [demo_frame2, demo_frame] = [3, - 2]"
    by (simp_all add: demo_frame_def demo_frame2_def demo_tick_def demo_seconds)
  from demo_frame_deltas [OF a] demo_frame_deltas [OF b] show ?thesis
    by (simp only: c d)
qed

text \<open>
  C9, amended. For every pass through the loop after another one, each subsystem call of the
  pass (three when a frame was begun) is handed, as frame time, the wall-clock difference in
  seconds between this pass's clock reading and the previous pass's: the 64-bit difference
  of the two tick counts converted to \<open>float\<close> seconds, which is within a relative error of
  \<open>2 ^ -22\<close> of the tick difference divided by the ticks of a second, and the tick
  difference is the difference of the two readings whenever that fits 64 bits. Nothing
  smooths or clamps it, however large. It is at least 0 exactly when the tick difference is,
  and it is 0 exactly when the two readings are equal, on whichever pass that happens.
\<close>

theorem frame_time_is_clock_difference:
  assumes "iteration K t1 s = Inr s1" and "iteration K t2 s1 = Inr s2"
  shows "length (contexts (new_calls s1 s2)) = (if is_acquired (begin_result t2) then 3 else 0) \<and>
         (\<forall>fi \<in> set (contexts (new_calls s1 s2)).
            frameTime fi = duration_seconds (sint (newTime t2 - newTime t1)) \<and>
            \<bar>frameTime fi - real_of_int (sint (newTime t2 - newTime t1)) / 1000000000\<bar>
              \<le> \<bar>real_of_int (sint (newTime t2 - newTime t1))\<bar> / 1000000000 / 2 ^ 22 \<and>
            (0 \<le> frameTime fi \<longleftrightarrow> 0 \<le> sint (newTime t2 - newTime t1)) \<and>
            (frameTime fi = 0 \<longleftrightarrow> newTime t2 = newTime t1)) \<and>
         (in_int64_range (sint (newTime t2) - sint (newTime t1)) \<longrightarrow>
            sint (newTime t2 - newTime t1) = sint (newTime t2) - sint (newTime t1))"
proof -
  have prev: "currentTime s1 = newTime t1"
    by (rule iteration_advances(3) [OF assms(1)])
  have passed: "\<forall>fi \<in> set (contexts (new_calls s1 s2)).
      frameTime fi = frame_seconds (newTime t1) (newTime t2)"
    using map_replicateD [OF iteration_contexts(2) [OF assms(2)]] prev by simp
  have conv: "frame_seconds (newTime t1) (newTime t2) =
      duration_seconds (sint (newTime t2 - newTime t1))"
    by (simp add: frame_seconds_def)
  from passed iteration_contexts(3) [OF assms(2)]
    frame_seconds_sign [of "newTime t1" "newTime t2"]
    frame_seconds_error [of "newTime t1" "newTime t2"]
    sint_diff_in_range [of "newTime t2" "newTime t1"]
  show ?thesis
    by (simp add: conv)
qed

theorem frame_time_is_clock_difference_witness:
  "\<exists>s1 s2. iteration demo_K demo_frame demo_start = Inr s1 \<and>
     iteration demo_K demo_late s1 = Inr s2 \<and>
     newTime demo_frame = 1000000000 \<and> newTime demo_late = 4097000000000 \<and>
     map frameTime (contexts (new_calls s1 s2)) = [4096, 4096, 4096]"
proof -
  have a: "not_lost (begin_result demo_frame)" "not_lost (begin_result demo_late)"
    "is_acquired (begin_result demo_late)"
    "newTime demo_frame = 1000000000" "newTime demo_late = 4097000000000"
    by (simp_all add: demo_frame_def demo_late_def demo_tick_def)
  from iteration_total [OF demo_slots_ok a(1)]
  obtain s1 where s1: "iteration demo_K demo_frame demo_start = Inr s1"
    by blast
  from iteration_total [OF slots_ok_iteration [OF demo_slots_ok s1] a(2)]
  obtain s2 where s2: "iteration demo_K demo_late s1 = Inr s2"
    by blast
  note r = frame_time_is_clock_difference [OF s1 s2]
  have len: "length (map frameTime (contexts (new_calls s1 s2))) = 3"
    using r a(3) by simp
  have spike: "duration_seconds (sint (4097000000000 - 1000000000 :: 64 word)) = 4096"
    using demo_seconds(6) by (simp only: frame_seconds_def)
  have "map frameTime (contexts (new_calls s1 s2)) = replicate 3 4096"
  proof (rule replicate_eqI [OF len])
    fix y assume "y \<in> set (map frameTime (contexts (new_calls s1 s2)))"
    then obtain fi where "fi \<in> set (contexts (new_calls s1 s2))" and "y = frameTime fi"
      by auto
    with r show "y = 4096"
      by (simp only: a(4,5) spike)
  qed
  with s1 s2 a(4,5) show ?thesis
    by (simp add: numeral_3_eq_3)
qed

end
